theory Spec2Isabelle
  imports Main
begin

section \<open>Strings as the generator uses them\<close>

text \<open>
  JavaScript strings are modelled as \<open>string\<close>. The helpers below are the string and
  array methods that \<open>generator.ts\<close> calls: \<open>Array.join\<close>, \<open>String.split\<close> on a
  one-character separator, \<open>String.endsWith\<close>, \<open>String.includes\<close>, and the
  character class \<open>\w\<close> of its two regular expressions.
\<close>

definition nl :: string where
  "nl = [CHR 0x0A]"

definition dq :: string where
  "dq = [CHR 0x22]"

fun join :: "string \<Rightarrow> string list \<Rightarrow> string" where
  "join sep [] = []"
| "join sep [x] = x"
| "join sep (x # y # ys) = x @ sep @ join sep (y # ys)"

fun split_acc :: "char \<Rightarrow> string \<Rightarrow> string \<Rightarrow> string list" where
  "split_acc sep cur [] = [rev cur]"
| "split_acc sep cur (c # cs) =
     (if c = sep then rev cur # split_acc sep [] cs else split_acc sep (c # cur) cs)"

definition split :: "char \<Rightarrow> string \<Rightarrow> string list" where
  "split sep s = split_acc sep [] s"

definition endsWith :: "string \<Rightarrow> string \<Rightarrow> bool" where
  "endsWith s suf = (length suf \<le> length s \<and> drop (length s - length suf) s = suf)"

fun str_includes :: "string \<Rightarrow> string \<Rightarrow> bool" where
  "str_includes [] sub = (sub = [])"
| "str_includes (c # cs) sub = (take (length sub) (c # cs) = sub \<or> str_includes cs sub)"

definition word_chars :: string where
  "word_chars = ''abcdefghijklmnopqrstuvwxyzABCDEFGHIJKLMNOPQRSTUVWXYZ0123456789_''"

definition is_word :: "char \<Rightarrow> bool" where
  "is_word c = (c \<in> set word_chars)"

section \<open>Node's path module, POSIX flavour\<close>

text \<open>
  \<open>path.resolve\<close>, \<open>path.relative\<close>, \<open>path.dirname\<close> and \<open>path.extname\<close> belong to
  Node, not to the repository. They are modelled for POSIX paths (\<open>path.sep = '/'\<close>),
  with the working directory \<open>cwd\<close> (an absolute path) as a parameter. A resolved path is
  kept as its list of segments; \<open>abs_path\<close> prints it.
\<close>

fun normalize_segs :: "string list \<Rightarrow> string list \<Rightarrow> string list" where
  "normalize_segs acc [] = rev acc"
| "normalize_segs acc (s # ss) =
     (if s = [] \<or> s = ''.'' then normalize_segs acc ss
      else if s = ''..'' then normalize_segs (tl acc) ss
      else normalize_segs (s # acc) ss)"

fun resolve_raw :: "string \<Rightarrow> string list \<Rightarrow> string" where
  "resolve_raw cwd [] = cwd"
| "resolve_raw cwd (p # ps) =
     (if p = [] then resolve_raw cwd ps
      else if hd p = CHR ''/'' then p
      else resolve_raw cwd ps @ ''/'' @ p)"

definition resolve_segs :: "string \<Rightarrow> string list \<Rightarrow> string list" where
  \<comment> \<open>\<open>path.resolve(...paths)\<close>: the rightmost absolute argument and what follows it.\<close>
  "resolve_segs cwd paths = normalize_segs [] (split (CHR ''/'') (resolve_raw cwd (rev paths)))"

definition abs_path :: "string list \<Rightarrow> string" where
  "abs_path segs = ''/'' @ join ''/'' segs"

definition path_resolve :: "string \<Rightarrow> string list \<Rightarrow> string" where
  "path_resolve cwd paths = abs_path (resolve_segs cwd paths)"

fun drop_common :: "string list \<Rightarrow> string list \<Rightarrow> string list \<times> string list" where
  "drop_common (x # xs) (y # ys) = (if x = y then drop_common xs ys else (x # xs, y # ys))"
| "drop_common xs ys = (xs, ys)"

definition path_relative :: "string \<Rightarrow> string \<Rightarrow> string \<Rightarrow> string" where
  \<comment> \<open>\<open>path.relative(from, to)\<close>: one \<open>..\<close> for each segment of \<open>from\<close> below the common
      directory, then the rest of \<open>to\<close>.\<close>
  "path_relative cwd from to =
     (if from = to then []
      else case drop_common (resolve_segs cwd [from]) (resolve_segs cwd [to]) of
             (fs, ts) \<Rightarrow> join ''/'' (replicate (length fs) ''..'' @ ts))"

definition path_dirname :: "string \<Rightarrow> string" where
  \<comment> \<open>\<open>path.dirname\<close>: scans from the end down to index 1, skipping trailing separators,
      and cuts at the first separator after a name.\<close>
  "path_dirname p =
     (if p = [] then ''.''
      else let r = dropWhile (\<lambda>c. c \<noteq> CHR ''/'')
                     (dropWhile (\<lambda>c. c = CHR ''/'') (rev (tl p)))
           in if r = [] then (if hd p = CHR ''/'' then ''/'' else ''.'')
              else if hd p = CHR ''/'' \<and> length r = 1 then ''//''
              else take (length r) p)"

definition path_basename :: "string \<Rightarrow> string" where
  "path_basename p =
     rev (takeWhile (\<lambda>c. c \<noteq> CHR ''/'') (dropWhile (\<lambda>c. c = CHR ''/'') (rev p)))"

definition path_extname :: "string \<Rightarrow> string" where
  \<comment> \<open>\<open>path.extname\<close>: from the last dot of the last path component, unless that
      component has no dot, starts with its only dot, or is \<open>..\<close>.\<close>
  "path_extname p =
     (let b = path_basename p;
          e = rev (takeWhile (\<lambda>c. c \<noteq> CHR ''.'') (rev b))
      in if CHR ''.'' \<notin> set b then []
         else if length e + 1 = length b then []
         else if b = ''..'' then []
         else CHR ''.'' # e)"

section \<open>Data model\<close>

text \<open>
  \<open>types.ts\<close> and \<open>schema.ts\<close> are not part of the sources at hand; the types below are
  the ones \<open>generator.ts\<close> reads. A layer key is a layer name or the \<open>EMPTY_LAYER\<close>
  symbol. \<open>Layers\<close> is an insertion-ordered \<open>Map\<close> from layer keys to \<open>Set\<close>s of
  components, so it is an association list whose values are lists in iteration order.
  The members of the string enum \<open>OutputDirection\<close> are non-empty strings, hence truthy.
\<close>

datatype layer = EMPTY_LAYER | Layer string

datatype Context = LAYER | RELATIONSHIP

datatype OutputDirection = HORIZONTAL | VERTICAL

record Component =
  name :: string
  filename :: string
  layer :: layer
  isImported :: bool
  imports_of :: "string list"

type_synonym Layers = "(layer \<times> Component list) list"

record OutputSchema =
  direction :: "OutputDirection option"
  output_path :: "string list"

definition getAllComponents :: "Layers \<Rightarrow> bool \<Rightarrow> Component list" where
  \<comment> \<open>Modelled from the spec: \<open>getAllComponents\<close> is inherited from \<open>GeneratorBase\<close>, which
      is not among the sources. The spec (4.3) describes its result as the full flattened
      component set of the diagram: the components across all layers, de-duplicated. It
      gives no order other than that of the layers and of each layer's set, and no meaning
      to the second argument of the call, which is therefore not used.\<close>
  "getAllComponents layers sortByName = remdups (concat (map snd layers))"

section \<open>Component renderer\<close>

definition safeName :: "string \<Rightarrow> string" where
  \<comment> \<open>\<open>component.name.replace(/[^\w]/g, '_')\<close>\<close>
  "safeName n = map (\<lambda>c. if is_word c then c else CHR ''_'') n"

definition generatePlantUMLComponent :: "Component \<Rightarrow> Context \<Rightarrow> string" where
  "generatePlantUMLComponent component context =
     (let isDirectory = endsWith (filename component) ''**'';
          hasLayer = (layer component \<noteq> EMPTY_LAYER)
      in if isDirectory then ''['' @ name component @ '']''
         else if hasLayer then ''('' @ name component @ '')''
         else if context = RELATIONSHIP then safeName (name component)
         else ''rectangle '' @ dq
              @ (if \<not> isImported component then ''<b>'' else [])
              @ name component
              @ (if \<not> isImported component then ''</b>'' else [])
              @ dq @ '' as '' @ safeName (name component))"

definition generatePlantUMLLayer :: "layer \<Rightarrow> Component list \<Rightarrow> string" where
  "generatePlantUMLLayer l components =
     (if components = [] then []
      else case l of
        EMPTY_LAYER \<Rightarrow>
          join nl ([] # map (\<lambda>c. generatePlantUMLComponent c LAYER) components)
      | Layer n \<Rightarrow>
          join nl ([] # (''package '' @ dq @ n @ dq @ '' {'')
                      # map (\<lambda>c. ''  '' @ generatePlantUMLComponent c LAYER) components
                      @ [''}'']))"

section \<open>Connection resolver\<close>

definition getConnectionLength :: "string \<Rightarrow> Component \<Rightarrow> Component \<Rightarrow> nat" where
  "getConnectionLength cwd component importedComponent =
     (let numberOfLevels =
            length (split (CHR ''/'')
              (path_dirname (path_relative cwd (filename component) (filename importedComponent))))
      in max (if isImported component then 2 else 1) (min 4 numberOfLevels))"

definition getConnectionSign :: "Component \<Rightarrow> Component \<Rightarrow> string" where
  "getConnectionSign component importedComponent =
     (if \<not> isImported component then ''=''
      else if layer component = layer importedComponent \<and> layer component \<noteq> EMPTY_LAYER
      then ''.''
      else ''-'')"

definition relationshipLine :: "string \<Rightarrow> Component list \<Rightarrow> Component \<Rightarrow> string \<Rightarrow> string list" where
  \<comment> \<open>The body of the inner loop: the line pushed for one import, if its target is found.\<close>
  "relationshipLine cwd components component importedFilename =
     (case find (\<lambda>importedComponent. filename importedComponent = importedFilename) components of
        None \<Rightarrow> []
      | Some importedComponent \<Rightarrow>
          let connectionLength = getConnectionLength cwd component importedComponent;
              connectionSign = getConnectionSign component importedComponent;
              connection = concat (replicate connectionLength connectionSign) @ ''>''
          in [join '' '' [generatePlantUMLComponent component RELATIONSHIP,
                           connection,
                           generatePlantUMLComponent importedComponent RELATIONSHIP]])"

definition generatePlantUMLRelationships :: "string \<Rightarrow> Layers \<Rightarrow> string" where
  "generatePlantUMLRelationships cwd layers =
     (let components = getAllComponents layers True
      in join nl ([] # concat (map (\<lambda>component.
           concat (map (relationshipLine cwd components component) (imports_of component)))
           components)))"

section \<open>Skin block\<close>

definition generatePlantUMLSkinParams :: string where
  "generatePlantUMLSkinParams = join nl
     ['''',
      ''skinparam monochrome true'',
      ''skinparam shadowing false'',
      ''skinparam nodesep 20'',
      ''skinparam ranksep 20'',
      ''skinparam defaultFontName Tahoma'',
      ''skinparam defaultFontSize 12'',
      ''skinparam roundCorner 4'',
      ''skinparam dpi 150'',
      ''skinparam arrowThickness 0.7'',
      ''skinparam packageTitleAlignment left'',
      '''',
      [CHR 0x27] @ '' oval'',
      ''skinparam usecase {'',
      ''  borderThickness 0.4'',
      ''  fontSize 12'',
      ''}'',
      '''',
      [CHR 0x27] @ '' rectangle'',
      ''skinparam rectangle {'',
      ''  borderThickness 0.8'',
      ''}'',
      '''',
      [CHR 0x27] @ '' component'',
      ''skinparam component {'',
      ''  borderThickness 1.2'',
      ''}'',
      '''']"

definition skinDirection :: "OutputSchema \<Rightarrow> Layers \<Rightarrow> OutputDirection" where
  \<comment> \<open>\<open>output.direction || getAllComponents(layers).length > 20 ? HORIZONTAL : VERTICAL\<close>:
      the conditional operator binds weaker than \<open>||\<close>, so the whole disjunction is its
      condition.\<close>
  "skinDirection output layers =
     (if direction output \<noteq> None \<or> length (getAllComponents layers False) > 20
      then HORIZONTAL else VERTICAL)"

definition generatePlantUMLSkin :: "OutputSchema \<Rightarrow> Layers \<Rightarrow> string" where
  "generatePlantUMLSkin output layers =
     join nl ['''',
              ''scale max 1920 width'',
              (if skinDirection output layers = HORIZONTAL
               then ''left to right direction'' else ''top to bottom direction''),
              generatePlantUMLSkinParams]"

section \<open>Promises and the event loop\<close>

text \<open>
  The export sequencer is asynchronous. Its model is a state machine over an explicit
  store of promises, following the rules of ECMAScript promises: a promise is pending,
  fulfilled or rejected; \<open>then\<close> registers a reaction on a pending promise or queues a
  job on a settled one; settling a promise queues one job per registered reaction;
  resolving a promise with another promise queues a job that subscribes to it. Jobs run
  one at a time from a first-in first-out queue.

  Promise objects are named after the place that creates them and the number of the call
  or of the chain link they belong to, so every name is used once. \<open>Chain 0\<close> is the
  initial \<open>Promise.resolve()\<close> of the field \<open>requestChain\<close>; \<open>Chain (Suc i)\<close> is the
  promise that the \<open>i\<close>-th accepted request stores in \<open>requestChain\<close>. For that link,
  \<open>Req i\<close> is the promise of \<open>request\<close>, \<open>Settled i\<close> the one of its \<open>then\<close>,
  \<open>Caught i\<close> the one of the \<open>catch\<close>, and \<open>Adopt p\<close> the promise made when
  the promise \<open>p\<close> subscribes to the promise it was resolved with. \<open>Caller c\<close> is
  the promise returned by the \<open>c\<close>-th call of \<open>convertToImage\<close>; \<open>Saved c\<close> and \<open>Rethrown c\<close> are the promises
  of the \<open>then\<close> and the \<open>catch\<close> in \<open>convert\<close>, and \<open>Direct c\<close> the
  \<open>Promise.resolve(puml)\<close> of its other branch.

  Callbacks are named too, since a store of promises cannot hold functions over itself.
\<close>

datatype pid =
  Chain nat | Caller nat | Req nat | Settled nat | Caught nat | Adopt pid
  | Saved nat | Rethrown nat | Direct nat

text \<open>
  The values that promises carry. \<open>Buffer d\<close> is a buffer with the bytes \<open>d\<close>, and
  \<open>Utf8Text d\<close> is the string that \<open>toString()\<close> makes of such a buffer, the bytes
  \<open>d\<close> decoded as UTF-8; the decoding itself is not modelled, so nothing is said about
  the characters of that string. \<open>Text t\<close> is a string of the program, \<open>Error e\<close> an
  error with message \<open>e\<close>, and \<open>Thenable p\<close> the promise \<open>p\<close> used as a value.
\<close>

datatype val =
  Undefined | Buffer string | Text string | Utf8Text string | Error string | Thenable pid

datatype pstatus = Pending | Fulfilled val | Rejected val

text \<open>
  The callbacks of \<open>generator.ts\<close>. \<open>ChainLink path puml i c\<close> is the function that
  \<open>convertToImage\<close> chains for link \<open>i\<close> and caller \<open>c\<close>:
  \<open>() => this.request(path, puml).then(result => resolve(result)).catch(err => debug(err))\<close>.
  \<open>ResolveCaller c\<close> is its \<open>result => resolve(result)\<close> and \<open>DebugErr\<close> its
  \<open>err => debug(err)\<close>. \<open>SaveImage fullExportPath shouldConvertAndSave\<close> is the
  \<open>then\<close> callback of \<open>convert\<close> and \<open>Rethrow\<close> its \<open>err => { throw err }\<close>.
  \<open>ResolveFn p\<close> and \<open>RejectFn p\<close> are the resolving functions of the promise
  \<open>p\<close>, and \<open>NoHandler\<close> stands for an argument of \<open>then\<close> that is not given.

  The image passed to \<open>SaveImage\<close> is a buffer, by the type of \<open>convertToImage\<close> and
  in every reachable state: the bytes are written as they are and the callback returns
  \<open>image.toString()\<close>. For any other value the callback raises a type error, as
  \<open>image.length\<close> does on \<open>undefined\<close>.
\<close>

datatype handler =
  NoHandler
  | ChainLink string string nat nat
  | ResolveCaller nat
  | DebugErr
  | ResolveFn pid
  | RejectFn pid
  | SaveImage string bool
  | Rethrow

type_synonym reaction = "handler \<times> handler \<times> pid"

datatype job = ReactionJob handler bool val pid | ThenableJob pid pid

datatype fsop = Unlink string | WriteFile string string

datatype completion = Return val | Throw val

datatype response = Ok string | Failed string

record Config =
  config_directory :: string
  output_formats :: "string list"
  process_cwd :: string

text \<open>
  The state of one \<open>Generator\<close> instance and of what it has set in motion: the promise
  store, the job queue, the field \<open>requestChain\<close>, the HTTPS requests that are on the
  wire, the lines passed to \<open>debug\<close> by the queue, and the files. \<open>accepted\<close>,
  \<open>issued\<close> and \<open>fsops\<close> are histories: the requests appended to the chain, the
  requests handed to \<open>https.request\<close>, and the file operations, each in order.
\<close>

record gstate =
  status :: "pid \<Rightarrow> pstatus"
  reactions :: "pid \<Rightarrow> reaction list"
  jobs :: "job list"
  requestChain :: pid
  calls :: nat
  inflight :: "(nat \<times> string \<times> string) list"
  accepted :: "(nat \<times> string \<times> string) list"
  issued :: "(nat \<times> string \<times> string) list"
  logs :: "val list"
  files :: "string \<Rightarrow> string option"
  fsops :: "fsop list"

definition init :: "(string \<Rightarrow> string option) \<Rightarrow> gstate" where
  \<comment> \<open>\<open>requestChain: Promise<any> = Promise.resolve()\<close>\<close>
  "init fs = \<lparr>status = (\<lambda>p. Pending)(Chain 0 := Fulfilled Undefined),
              reactions = (\<lambda>p. []), jobs = [], requestChain = Chain 0, calls = 0,
              inflight = [], accepted = [], issued = [], logs = [],
              files = fs, fsops = []\<rparr>"

fun job_of :: "pstatus \<Rightarrow> reaction \<Rightarrow> job list" where
  "job_of (Fulfilled v) (onFulfilled, onRejected, derived) = [ReactionJob onFulfilled False v derived]"
| "job_of (Rejected e) (onFulfilled, onRejected, derived) = [ReactionJob onRejected True e derived]"
| "job_of Pending r = []"

definition settle :: "pid \<Rightarrow> pstatus \<Rightarrow> gstate \<Rightarrow> gstate" where
  \<comment> \<open>Fulfil or reject a promise: no effect unless it is pending.\<close>
  "settle p st s =
     (if status s p = Pending
      then s\<lparr>status := (status s)(p := st),
             jobs := jobs s @ concat (map (job_of st) (reactions s p)),
             reactions := (reactions s)(p := [])\<rparr>
      else s)"

definition resolveP :: "pid \<Rightarrow> val \<Rightarrow> gstate \<Rightarrow> gstate" where
  \<comment> \<open>The resolve function of a promise: a promise as value is subscribed to in a job
      of its own, any other value fulfils.\<close>
  "resolveP p v s =
     (case v of
        Thenable t \<Rightarrow> (if status s p = Pending then s\<lparr>jobs := jobs s @ [ThenableJob p t]\<rparr> else s)
      | _ \<Rightarrow> settle p (Fulfilled v) s)"

definition thenP :: "pid \<Rightarrow> handler \<Rightarrow> handler \<Rightarrow> pid \<Rightarrow> gstate \<Rightarrow> gstate" where
  \<comment> \<open>\<open>p.then(onFulfilled, onRejected)\<close>, the new promise being \<open>derived\<close>.\<close>
  "thenP p onFulfilled onRejected derived s =
     (case status s p of
        Pending \<Rightarrow> s\<lparr>reactions := (reactions s)(p := reactions s p @ [(onFulfilled, onRejected, derived)])\<rparr>
      | st \<Rightarrow> s\<lparr>jobs := jobs s @ job_of st (onFulfilled, onRejected, derived)\<rparr>)"

section \<open>Export sequencer\<close>

fun match_w3 :: "string \<Rightarrow> string option" where
  \<comment> \<open>\<open>format.match(/\w{3}/)\<close>: the leftmost three consecutive word characters.\<close>
  "match_w3 (a # b # c # rest) =
     (if is_word a \<and> is_word b \<and> is_word c then Some [a, b, c] else match_w3 (b # c # rest))"
| "match_w3 s = None"

definition word_run_at :: "string \<Rightarrow> nat \<Rightarrow> bool" where
  \<comment> \<open>Three consecutive word characters of \<open>s\<close> start at position \<open>k\<close>: what one
      match of \<open>\w{3}\<close> at \<open>k\<close> means, stated on the string and apart from the scan.\<close>
  "word_run_at s k =
     (k + 3 \<le> length s \<and> is_word (s ! k) \<and> is_word (s ! (k + 1)) \<and> is_word (s ! (k + 2)))"

definition request :: "nat \<Rightarrow> string \<Rightarrow> string \<Rightarrow> gstate \<Rightarrow> gstate" where
  \<comment> \<open>\<open>request(path, payload)\<close> for link \<open>i\<close>: the executor writes the request and ends
      it; the promise \<open>Req i\<close> stays pending until the response ends or an error event
      arrives.\<close>
  "request i path payload s =
     s\<lparr>inflight := inflight s @ [(i, path, payload)],
       issued := issued s @ [(i, path, payload)]\<rparr>"

definition convertToImage :: "string \<Rightarrow> string \<Rightarrow> gstate \<Rightarrow> pid \<times> gstate" where
  "convertToImage puml format s =
     (let c = calls s; s0 = s\<lparr>calls := Suc c\<rparr>
      in case match_w3 format of
           None \<Rightarrow>
             (Caller c,
              settle (Caller c)
                (Rejected (Error (''Cannot identify image format from '' @ format))) s0)
         | Some m \<Rightarrow>
             let i = length (accepted s0);
                 s1 = thenP (requestChain s0) (ChainLink (''/'' @ m) puml i c) NoHandler
                        (Chain (Suc i)) s0
             in (Caller c,
                 s1\<lparr>requestChain := Chain (Suc i),
                    accepted := accepted s1 @ [(c, ''/'' @ m, puml)]\<rparr>))"

definition existsSync :: "string \<Rightarrow> gstate \<Rightarrow> bool" where
  "existsSync p s = (files s p \<noteq> None)"

definition unlinkSync :: "string \<Rightarrow> gstate \<Rightarrow> gstate" where
  "unlinkSync p s = s\<lparr>files := (files s)(p := None), fsops := fsops s @ [Unlink p]\<rparr>"

definition writeFileSync :: "string \<Rightarrow> string \<Rightarrow> gstate \<Rightarrow> gstate" where
  "writeFileSync p d s = s\<lparr>files := (files s)(p \<mapsto> d), fsops := fsops s @ [WriteFile p d]\<rparr>"

fun replace_dot :: "string \<Rightarrow> string" where
  \<comment> \<open>\<open>ext.replace('.', '')\<close>: the first dot is removed.\<close>
  "replace_dot [] = []"
| "replace_dot (c # cs) = (if c = CHR ''.'' then cs else c # replace_dot cs)"

definition convert :: "Config \<Rightarrow> string \<Rightarrow> string \<Rightarrow> gstate \<Rightarrow> pid \<times> gstate" where
  "convert cfg pathOrType puml s =
     (let fullExportPath = path_resolve (process_cwd cfg) [config_directory cfg, pathOrType];
          ext = path_extname fullExportPath;
          shouldConvertAndSave = (replace_dot ext \<in> set (output_formats cfg));
          shouldConvertAndOutput = (pathOrType \<in> set (output_formats cfg));
          s1 = (if existsSync fullExportPath s then unlinkSync fullExportPath s else s);
          c = calls s1
      in if shouldConvertAndSave \<or> shouldConvertAndOutput
         then let s2 = snd (convertToImage puml (if ext \<noteq> [] then ext else pathOrType) s1)
              in (Rethrown c,
                  thenP (Saved c) NoHandler Rethrow (Rethrown c)
                    (thenP (Caller c) (SaveImage fullExportPath shouldConvertAndSave) NoHandler
                       (Saved c) s2))
         else let s2 = (if ext = ''.puml'' then writeFileSync fullExportPath puml s1 else s1)
              in (Direct c,
                  s2\<lparr>calls := Suc c,
                     status := (status s2)(Direct c := Fulfilled (Text puml))\<rparr>))"

fun runHandler :: "handler \<Rightarrow> val \<Rightarrow> gstate \<Rightarrow> completion \<times> gstate" where
  "runHandler (ChainLink path puml i c) v s =
     (Return (Thenable (Caught i)),
      thenP (Settled i) NoHandler DebugErr (Caught i)
        (thenP (Req i) (ResolveCaller c) NoHandler (Settled i)
           (request i path puml s)))"
| "runHandler (ResolveCaller c) v s = (Return Undefined, resolveP (Caller c) v s)"
| "runHandler DebugErr v s = (Return Undefined, s\<lparr>logs := logs s @ [v]\<rparr>)"
| "runHandler (ResolveFn p) v s = (Return Undefined, resolveP p v s)"
| "runHandler (RejectFn p) v s = (Return Undefined, settle p (Rejected v) s)"
| "runHandler (SaveImage fullExportPath shouldConvertAndSave) v s =
     (case v of
        Buffer img \<Rightarrow>
          (Return (Utf8Text img),
           if shouldConvertAndSave then writeFileSync fullExportPath img s else s)
      | _ \<Rightarrow> (Throw (Error ''TypeError''), s))"
| "runHandler Rethrow v s = (Throw v, s)"
| "runHandler NoHandler v s = (Return v, s)"

fun runJob :: "job \<Rightarrow> gstate \<Rightarrow> gstate" where
  "runJob (ReactionJob h rejected v derived) s =
     (if h = NoHandler
      then (if rejected then settle derived (Rejected v) s else resolveP derived v s)
      else case runHandler h v s of
             (Return r, s') \<Rightarrow> resolveP derived r s'
           | (Throw e, s') \<Rightarrow> settle derived (Rejected e) s')"
| "runJob (ThenableJob p t) s = thenP t (ResolveFn p) (RejectFn p) (Adopt p) s"

text \<open>
  What can happen to a generator: a call of \<open>convertToImage\<close> or of \<open>convert\<close>,
  at any moment between two jobs; the next job of the queue; and the outcome of a
  request that is on the wire, either the end of its response with the bytes received
  or an error event. The event loop delivers such an outcome only once the job queue is
  empty, and a request leaves the wire with its outcome. A request that never gets an
  outcome stays on the wire. \<open>fire\<close> is \<open>None\<close> for an event that cannot happen in
  the state.
\<close>

datatype event =
  ConvertToImage string string
  | Convert string string
  | RunJob
  | Respond nat response

fun fire :: "Config \<Rightarrow> event \<Rightarrow> gstate \<Rightarrow> gstate option" where
  "fire cfg (ConvertToImage puml format) s = Some (snd (convertToImage puml format s))"
| "fire cfg (Convert pathOrType puml) s = Some (snd (convert cfg pathOrType puml s))"
| "fire cfg RunJob s =
     (case jobs s of [] \<Rightarrow> None | j # js \<Rightarrow> Some (runJob j (s\<lparr>jobs := js\<rparr>)))"
| "fire cfg (Respond i r) s =
     (if jobs s = [] \<and> i \<in> fst ` set (inflight s)
      then Some (let s' = s\<lparr>inflight := filter (\<lambda>q. fst q \<noteq> i) (inflight s)\<rparr>
                 in case r of
                      Ok d \<Rightarrow> resolveP (Req i) (Buffer d) s'
                    | Failed e \<Rightarrow> settle (Req i) (Rejected (Error e)) s')
      else None)"

fun run :: "Config \<Rightarrow> event list \<Rightarrow> gstate \<Rightarrow> gstate option" where
  "run cfg [] s = Some s"
| "run cfg (e # es) s = (case fire cfg e s of None \<Rightarrow> None | Some s' \<Rightarrow> run cfg es s')"

inductive reachable :: "Config \<Rightarrow> gstate \<Rightarrow> bool" for cfg where
  reachable_init: "reachable cfg (init fs)"
| reachable_step: "reachable cfg s \<Longrightarrow> fire cfg e s = Some s' \<Longrightarrow> reachable cfg s'"

section \<open>The shape of reachable states\<close>

text \<open>
  What follows describes the states the sequencer can be in, to state its invariant. At
  any time the links before some index \<open>a\<close> are done, the links after it wait on the
  promise of their predecessor, and the link \<open>a\<close> itself is in one of the phases below;
  \<open>Idle\<close> means that every link is done. The other jobs and reactions in the store are
  those of the callbacks that \<open>convert\<close> attaches to a conversion.
\<close>

datatype phase =
  Idle | Queued | OnWire | Subscribed
  | GotResp response | SettledResp response | CaughtDone response

fun resp_status :: "response \<Rightarrow> pstatus" where
  "resp_status (Ok d) = Fulfilled (Buffer d)"
| "resp_status (Failed e) = Rejected (Error e)"

definition link_handler :: "(nat \<times> string \<times> string) list \<Rightarrow> nat \<Rightarrow> handler" where
  "link_handler acc j = (case acc ! j of (c, p, u) \<Rightarrow> ChainLink p u j c)"

definition link_request :: "(nat \<times> string \<times> string) list \<Rightarrow> nat \<Rightarrow> nat \<times> string \<times> string" where
  "link_request acc j = (case acc ! j of (c, p, u) \<Rightarrow> (j, p, u))"

definition link_caller :: "(nat \<times> string \<times> string) list \<Rightarrow> nat \<Rightarrow> nat" where
  "link_caller acc j = fst (acc ! j)"

fun phase_jobs :: "(nat \<times> string \<times> string) list \<Rightarrow> nat \<Rightarrow> phase \<Rightarrow> job list" where
  "phase_jobs acc a Idle = []"
| "phase_jobs acc a Queued = [ReactionJob (link_handler acc a) False Undefined (Chain (Suc a))]"
| "phase_jobs acc a OnWire = [ThenableJob (Chain (Suc a)) (Caught a)]"
| "phase_jobs acc a Subscribed = []"
| "phase_jobs acc a (GotResp (Ok d)) =
     [ReactionJob (ResolveCaller (link_caller acc a)) False (Buffer d) (Settled a)]"
| "phase_jobs acc a (GotResp (Failed e)) = [ReactionJob NoHandler True (Error e) (Settled a)]"
| "phase_jobs acc a (SettledResp (Ok d)) = [ReactionJob NoHandler False Undefined (Caught a)]"
| "phase_jobs acc a (SettledResp (Failed e)) = [ReactionJob DebugErr True (Error e) (Caught a)]"
| "phase_jobs acc a (CaughtDone r) =
     [ReactionJob (ResolveFn (Chain (Suc a))) False Undefined (Adopt (Chain (Suc a)))]"

fun on_wire :: "phase \<Rightarrow> bool" where
  "on_wire OnWire = True"
| "on_wire Subscribed = True"
| "on_wire ph = False"

fun issued_upto :: "nat \<Rightarrow> phase \<Rightarrow> nat" where
  "issued_upto a Idle = a"
| "issued_upto a Queued = a"
| "issued_upto a ph = Suc a"

fun req_status :: "phase \<Rightarrow> pstatus" where
  "req_status (GotResp r) = resp_status r"
| "req_status (SettledResp r) = resp_status r"
| "req_status (CaughtDone r) = resp_status r"
| "req_status ph = Pending"

fun req_reacts :: "(nat \<times> string \<times> string) list \<Rightarrow> nat \<Rightarrow> phase \<Rightarrow> reaction list" where
  "req_reacts acc a OnWire = [(ResolveCaller (link_caller acc a), NoHandler, Settled a)]"
| "req_reacts acc a Subscribed = [(ResolveCaller (link_caller acc a), NoHandler, Settled a)]"
| "req_reacts acc a ph = []"

fun settled_of :: "response \<Rightarrow> pstatus" where
  "settled_of (Ok d) = Fulfilled Undefined"
| "settled_of (Failed e) = Rejected (Error e)"

fun settled_status :: "phase \<Rightarrow> pstatus" where
  "settled_status (SettledResp r) = settled_of r"
| "settled_status (CaughtDone r) = settled_of r"
| "settled_status ph = Pending"

fun settled_reacts :: "nat \<Rightarrow> phase \<Rightarrow> reaction list" where
  "settled_reacts a OnWire = [(NoHandler, DebugErr, Caught a)]"
| "settled_reacts a Subscribed = [(NoHandler, DebugErr, Caught a)]"
| "settled_reacts a (GotResp r) = [(NoHandler, DebugErr, Caught a)]"
| "settled_reacts a ph = []"

fun caught_status :: "phase \<Rightarrow> pstatus" where
  "caught_status (CaughtDone r) = Fulfilled Undefined"
| "caught_status ph = Pending"

fun caught_reacts :: "nat \<Rightarrow> phase \<Rightarrow> reaction list" where
  "caught_reacts a Subscribed =
     [(ResolveFn (Chain (Suc a)), RejectFn (Chain (Suc a)), Adopt (Chain (Suc a)))]"
| "caught_reacts a (GotResp r) =
     [(ResolveFn (Chain (Suc a)), RejectFn (Chain (Suc a)), Adopt (Chain (Suc a)))]"
| "caught_reacts a (SettledResp r) =
     [(ResolveFn (Chain (Suc a)), RejectFn (Chain (Suc a)), Adopt (Chain (Suc a)))]"
| "caught_reacts a ph = []"

fun caller_of :: "pstatus \<Rightarrow> pstatus" where
  \<comment> \<open>The caller's promise once the link is through: fulfilled with the image if the
      request was, still pending if the request failed.\<close>
  "caller_of (Fulfilled v) = Fulfilled v"
| "caller_of st = Pending"

fun caller_status :: "phase \<Rightarrow> pstatus" where
  "caller_status (SettledResp r) = caller_of (resp_status r)"
| "caller_status (CaughtDone r) = caller_of (resp_status r)"
| "caller_status ph = Pending"

fun is_chain_pid :: "pid \<Rightarrow> bool" where
  "is_chain_pid (Chain j) = True"
| "is_chain_pid (Settled j) = True"
| "is_chain_pid (Caught j) = True"
| "is_chain_pid (Adopt p) = True"
| "is_chain_pid p = False"

fun is_chain_job :: "job \<Rightarrow> bool" where
  "is_chain_job (ReactionJob h rejected v derived) = is_chain_pid derived"
| "is_chain_job (ThenableJob p t) = True"

definition is_thenable :: "val \<Rightarrow> bool" where
  "is_thenable v = (case v of Thenable t \<Rightarrow> True | _ \<Rightarrow> False)"

definition is_buffer :: "val \<Rightarrow> bool" where
  "is_buffer v = (case v of Buffer d \<Rightarrow> True | _ \<Rightarrow> False)"

definition is_save :: "handler \<Rightarrow> bool" where
  "is_save h = (case h of SaveImage p b \<Rightarrow> True | _ \<Rightarrow> False)"

definition peripheral_job :: "nat \<Rightarrow> job \<Rightarrow> bool" where
  \<comment> \<open>The jobs of the callbacks attached by \<open>convert\<close>, for calls before the \<open>n\<close>-th.\<close>
  "peripheral_job n j =
     (case j of
        ThenableJob p t \<Rightarrow> False
      | ReactionJob h rejected v derived \<Rightarrow>
          (case derived of
             Saved c \<Rightarrow> c < n \<and> (if rejected then h = NoHandler
                                    else is_save h \<and> is_buffer v)
           | Rethrown c \<Rightarrow> c < n \<and> (if rejected then h = Rethrow
                                       else h = NoHandler \<and> \<not> is_thenable v)
           | _ \<Rightarrow> False))"

definition peripheral_ok :: "gstate \<Rightarrow> bool" where
  "peripheral_ok s =
     ((\<forall>j \<in> set (jobs s). is_chain_job j \<or> peripheral_job (calls s) j)
      \<and> (\<forall>c. reactions s (Caller c) = []
              \<or> (\<exists>p b. reactions s (Caller c) = [(SaveImage p b, NoHandler, Saved c)]))
      \<and> (\<forall>c. reactions s (Saved c) = []
              \<or> reactions s (Saved c) = [(NoHandler, Rethrow, Rethrown c)])
      \<and> (\<forall>c. reactions s (Rethrown c) = [])
      \<and> (\<forall>p. reactions s (Adopt p) = [])
      \<and> (\<forall>c \<ge> calls s. status s (Caller c) = Pending \<and> status s (Saved c) = Pending
              \<and> reactions s (Caller c) = [] \<and> reactions s (Saved c) = []))"

definition chain_ok :: "gstate \<Rightarrow> nat \<Rightarrow> phase \<Rightarrow> bool" where
  "chain_ok s a ph =
     (let acc = accepted s; n = length acc in
      a \<le> n \<and> ((ph = Idle) = (a = n))
      \<and> requestChain s = Chain n
      \<and> (\<forall>j. status s (Chain j) = (if j \<le> a then Fulfilled Undefined else Pending))
      \<and> (\<forall>j. reactions s (Chain j)
              = (if a < j \<and> j < n then [(link_handler acc j, NoHandler, Chain (Suc j))] else []))
      \<and> filter is_chain_job (jobs s) = phase_jobs acc a ph
      \<and> inflight s = (if on_wire ph then [link_request acc a] else [])
      \<and> issued s = map (link_request acc) [0..<issued_upto a ph])"

definition link_ok :: "gstate \<Rightarrow> nat \<Rightarrow> phase \<Rightarrow> bool" where
  "link_ok s a ph =
     (let acc = accepted s in
      status s (Req a) = req_status ph
      \<and> status s (Settled a) = settled_status ph
      \<and> status s (Caught a) = caught_status ph
      \<and> (\<forall>j > a. status s (Req j) = Pending \<and> status s (Settled j) = Pending
                \<and> status s (Caught j) = Pending)
      \<and> (\<forall>j < a. \<exists>r. status s (Req j) = resp_status r)
      \<and> (\<forall>j. reactions s (Req j) = (if j = a then req_reacts acc a ph else []))
      \<and> (\<forall>j. reactions s (Settled j) = (if j = a then settled_reacts a ph else []))
      \<and> (\<forall>j. reactions s (Caught j) = (if j = a then caught_reacts a ph else [])))"

definition callers_ok :: "gstate \<Rightarrow> nat \<Rightarrow> phase \<Rightarrow> bool" where
  "callers_ok s a ph =
     (let acc = accepted s; n = length acc in
      distinct (map fst acc)
      \<and> (\<forall>j < n. link_caller acc j < calls s)
      \<and> (\<forall>j < n. status s (Caller (link_caller acc j))
                  = (if j < a then caller_of (status s (Req j))
                     else if j = a then caller_status ph else Pending)))"

definition state_ok :: "gstate \<Rightarrow> nat \<Rightarrow> phase \<Rightarrow> bool" where
  "state_ok s a ph = (chain_ok s a ph \<and> link_ok s a ph \<and> callers_ok s a ph \<and> peripheral_ok s)"


definition after_accept :: "phase \<Rightarrow> phase" where
  \<comment> \<open>The phase after a request has been appended to the chain.\<close>
  "after_accept ph = (if ph = Idle then Queued else ph)"

definition after_done :: "gstate \<Rightarrow> nat \<Rightarrow> phase" where
  \<comment> \<open>The phase of link \<open>Suc a\<close> once link \<open>a\<close> is through.\<close>
  "after_done s a = (if Suc a < length (accepted s) then Queued else Idle)"

section \<open>Several generators in one process\<close>

text \<open>
  \<open>requestChain\<close> is a field of the class, initialised per instance. A process that
  creates several \<open>Generator\<close> objects is a list of instance states; an event names the
  instance it concerns. The promises of two instances are disjoint, and the jobs of
  each instance run in the order in which they were queued.
\<close>

fun fire_at :: "Config \<Rightarrow> nat \<times> event \<Rightarrow> gstate list \<Rightarrow> gstate list option" where
  "fire_at cfg (g, e) p =
     (if g < length p
      then (case fire cfg e (p ! g) of None \<Rightarrow> None | Some s' \<Rightarrow> Some (p[g := s']))
      else None)"

fun run_at :: "Config \<Rightarrow> (nat \<times> event) list \<Rightarrow> gstate list \<Rightarrow> gstate list option" where
  "run_at cfg [] p = Some p"
| "run_at cfg (x # xs) p = (case fire_at cfg x p of None \<Rightarrow> None | Some p' \<Rightarrow> run_at cfg xs p')"

definition in_flight_total :: "gstate list \<Rightarrow> nat" where
  \<comment> \<open>The number of remote calls in flight in the whole process.\<close>
  "in_flight_total p = sum_list (map (\<lambda>s. length (inflight s)) p)"

section \<open>Properties of the component renderer\<close>

lemma str_includes_Nil: "str_includes s []"
  by (cases s) simp_all

lemma str_includes_prefix: "str_includes (sub @ post) sub"
  by (cases sub) (simp_all add: str_includes_Nil)

lemma str_includes_append: "str_includes (pre @ sub @ post) sub"
  by (induction pre) (simp_all add: str_includes_prefix)

text \<open>
  Claim C9. The sanitized identifier used in RELATIONSHIP context is not injective in the
  component name: the ungrouped, non-directory components named \<open>a.b\<close> and \<open>a-b\<close> both
  render as \<open>a_b\<close>, so a connector endpoint cannot tell them apart.
\<close>

theorem safeName_not_injective:
  "\<not> inj safeName
   \<and> generatePlantUMLComponent
        \<lparr>name = ''a.b'', filename = ''a.b'', layer = EMPTY_LAYER, isImported = False, imports_of = []\<rparr>
        RELATIONSHIP = ''a_b''
   \<and> generatePlantUMLComponent
        \<lparr>name = ''a-b'', filename = ''a-b'', layer = EMPTY_LAYER, isImported = False, imports_of = []\<rparr>
        RELATIONSHIP = ''a_b''"
proof -
  have eq: "safeName ''a.b'' = safeName ''a-b''"
    by (simp add: safeName_def is_word_def word_chars_def)
  have "\<not> inj safeName"
  proof
    assume "inj safeName"
    from injD [OF this eq] show False by simp
  qed
  moreover have "generatePlantUMLComponent
        \<lparr>name = ''a.b'', filename = ''a.b'', layer = EMPTY_LAYER, isImported = False, imports_of = []\<rparr>
        RELATIONSHIP = ''a_b''"
    by (simp add: generatePlantUMLComponent_def endsWith_def safeName_def is_word_def word_chars_def)
  moreover have "generatePlantUMLComponent
        \<lparr>name = ''a-b'', filename = ''a-b'', layer = EMPTY_LAYER, isImported = False, imports_of = []\<rparr>
        RELATIONSHIP = ''a_b''"
    by (simp add: generatePlantUMLComponent_def endsWith_def safeName_def is_word_def word_chars_def)
  ultimately show ?thesis by blast
qed

text \<open>
  Claim C4, as stated, fails: a component with \<open>isImported = false\<close> that belongs to a
  named layer is declared as \<open>(name)\<close> in LAYER context, with no bold markup. The
  emphasis is applied only on the branch for ungrouped, non-directory components.
\<close>

theorem layered_component_not_bold:
  "\<not> isImported \<lparr>name = ''n'', filename = ''n.ts'', layer = Layer ''x'',
                  isImported = False, imports_of = []\<rparr>
   \<and> generatePlantUMLComponent
        \<lparr>name = ''n'', filename = ''n.ts'', layer = Layer ''x'',
         isImported = False, imports_of = []\<rparr> LAYER = ''(n)''
   \<and> \<not> str_includes (generatePlantUMLComponent
        \<lparr>name = ''n'', filename = ''n.ts'', layer = Layer ''x'',
         isImported = False, imports_of = []\<rparr> LAYER) ''<b>''"
  by (simp add: generatePlantUMLComponent_def endsWith_def)

text \<open>
  Claim C4, amended. For every component with \<open>isImported = false\<close> that is ungrouped
  (\<open>EMPTY_LAYER\<close>) and not a directory aggregate, the declaration token in LAYER context
  is a rectangle whose label is the name wrapped in \<open><b>\<close> and \<open></b>\<close>. For every
  component with \<open>isImported = true\<close> the token carries the bare name, whatever its layer:
  \<open>[name]\<close> for a directory aggregate, \<open>(name)\<close> in a named layer, and a rectangle with
  the plain label otherwise.
\<close>

theorem layer_token_emphasis:
  "(\<not> isImported component \<and> layer component = EMPTY_LAYER
      \<and> \<not> endsWith (filename component) ''**''
    \<longrightarrow> generatePlantUMLComponent component LAYER
          = ''rectangle '' @ dq @ ''<b>'' @ name component @ ''</b>'' @ dq
            @ '' as '' @ safeName (name component)
        \<and> str_includes (generatePlantUMLComponent component LAYER)
            (''<b>'' @ name component @ ''</b>''))
   \<and> (isImported component
    \<longrightarrow> generatePlantUMLComponent component LAYER
          = (if endsWith (filename component) ''**'' then ''['' @ name component @ '']''
             else if layer component \<noteq> EMPTY_LAYER then ''('' @ name component @ '')''
             else ''rectangle '' @ dq @ name component @ dq
                  @ '' as '' @ safeName (name component)))"
proof -
  have "str_includes ((''rectangle '' @ dq) @ (''<b>'' @ name component @ ''</b>'')
          @ (dq @ '' as '' @ safeName (name component)))
        (''<b>'' @ name component @ ''</b>'')"
    by (rule str_includes_append)
  then show ?thesis
    by (simp add: generatePlantUMLComponent_def Let_def)
qed

text \<open>
  Witness for claim C4 (amended): the primary ungrouped file \<open>main.ts\<close> is declared with
  a bold label, and the import-only component \<open>lib\<close> of layer \<open>core\<close> without one.
\<close>

theorem layer_token_emphasis_witness:
  "generatePlantUMLComponent
     \<lparr>name = ''main.ts'', filename = ''src/main.ts'', layer = EMPTY_LAYER,
      isImported = False, imports_of = []\<rparr> LAYER
   = ''rectangle '' @ dq @ ''<b>main.ts</b>'' @ dq @ '' as main_ts''
   \<and> generatePlantUMLComponent
     \<lparr>name = ''lib'', filename = ''src/lib.ts'', layer = Layer ''core'',
      isImported = True, imports_of = []\<rparr> LAYER
   = ''(lib)''"
  using layer_token_emphasis
          [of "\<lparr>name = ''main.ts'', filename = ''src/main.ts'', layer = EMPTY_LAYER,
                isImported = False, imports_of = []\<rparr>"]
        layer_token_emphasis
          [of "\<lparr>name = ''lib'', filename = ''src/lib.ts'', layer = Layer ''core'',
                isImported = True, imports_of = []\<rparr>"]
  by (simp add: endsWith_def safeName_def is_word_def word_chars_def)

section \<open>Properties of the connection resolver\<close>

lemma split_acc_nonempty: "split_acc sep cur s \<noteq> []"
  by (induction s arbitrary: cur) auto

lemma length_split_pos: "1 \<le> length (split sep s)"
  using split_acc_nonempty [of sep "[]" s]
  by (cases "split_acc sep [] s") (simp_all add: split_def)

text \<open>
  Claim C3. For every source component and imported target, the connector length is a
  natural number between 1 and 4 inclusive, and at least 2 whenever the source is
  import-only.
\<close>

theorem getConnectionLength_range:
  "1 \<le> getConnectionLength cwd component importedComponent
   \<and> getConnectionLength cwd component importedComponent \<le> 4
   \<and> (isImported component \<longrightarrow> 2 \<le> getConnectionLength cwd component importedComponent)"
  using length_split_pos [of "CHR ''/''"
      "path_dirname (path_relative cwd (filename component) (filename importedComponent))"]
  by (auto simp: getConnectionLength_def Let_def)

text \<open>
  Witness for claim C3: an import-only source three directories away from its target
  gets length 4, inside both ranges.
\<close>

theorem getConnectionLength_range_witness:
  "isImported \<lparr>name = ''c.ts'', filename = ''a/c.ts'', layer = EMPTY_LAYER,
               isImported = True, imports_of = [''x/y/z/d.ts'']\<rparr>
   \<and> getConnectionLength ''/w''
        \<lparr>name = ''c.ts'', filename = ''a/c.ts'', layer = EMPTY_LAYER,
         isImported = True, imports_of = [''x/y/z/d.ts'']\<rparr>
        \<lparr>name = ''d.ts'', filename = ''x/y/z/d.ts'', layer = EMPTY_LAYER,
         isImported = True, imports_of = []\<rparr> = 4"
  using getConnectionLength_range [of "''/w''"
        "\<lparr>name = ''c.ts'', filename = ''a/c.ts'', layer = EMPTY_LAYER,
         isImported = True, imports_of = [''x/y/z/d.ts'']\<rparr>"
        "\<lparr>name = ''d.ts'', filename = ''x/y/z/d.ts'', layer = EMPTY_LAYER,
         isImported = True, imports_of = []\<rparr>"]
  by code_simp

lemma split_acc_append_sep:
  "split_acc sep cur (xs @ sep # ys) = split_acc sep cur xs @ split_acc sep [] ys"
  by (induction xs arbitrary: cur) simp_all

lemma split_append_sep: "split sep (xs @ sep # ys) = split sep xs @ split sep ys"
  by (simp add: split_def split_acc_append_sep)

lemma normalize_segs_append:
  "normalize_segs acc (xs @ ys) = normalize_segs (rev (normalize_segs acc xs)) ys"
  by (induction xs arbitrary: acc) simp_all

lemma drop_common_prefix: "drop_common (ps @ xs) (ps @ ys) = drop_common xs ys"
  by (induction ps) simp_all

lemma resolve_segs_b: "resolve_segs cwd [''a/b.ts''] = resolve_segs cwd [] @ [''a'', ''b.ts'']"
proof -
  have "resolve_segs cwd [''a/b.ts'']
        = normalize_segs [] (split (CHR ''/'') (cwd @ CHR ''/'' # ''a/b.ts''))"
    by (simp add: resolve_segs_def)
  also have "\<dots> = normalize_segs [] (split (CHR ''/'') cwd @ [''a'', ''b.ts''])"
    by (simp add: split_append_sep) (simp add: split_def)
  also have "\<dots> = resolve_segs cwd [] @ [''a'', ''b.ts'']"
    by (simp add: normalize_segs_append resolve_segs_def)
  finally show ?thesis .
qed

lemma resolve_segs_c: "resolve_segs cwd [''a/c.ts''] = resolve_segs cwd [] @ [''a'', ''c.ts'']"
proof -
  have "resolve_segs cwd [''a/c.ts'']
        = normalize_segs [] (split (CHR ''/'') (cwd @ CHR ''/'' # ''a/c.ts''))"
    by (simp add: resolve_segs_def)
  also have "\<dots> = normalize_segs [] (split (CHR ''/'') cwd @ [''a'', ''c.ts''])"
    by (simp add: split_append_sep) (simp add: split_def)
  also have "\<dots> = resolve_segs cwd [] @ [''a'', ''c.ts'']"
    by (simp add: normalize_segs_append resolve_segs_def)
  finally show ?thesis .
qed

lemma relative_b_c: "path_relative cwd ''a/b.ts'' ''a/c.ts'' = ''../c.ts''"
  by (simp add: path_relative_def resolve_segs_b resolve_segs_c drop_common_prefix)

lemma levels_b_c:
  "length (split (CHR ''/'') (path_dirname (path_relative cwd ''a/b.ts'' ''a/c.ts''))) = 1"
  by (simp add: relative_b_c path_dirname_def split_def)

text \<open>
  Claim C5, as stated, fails. For the two components \<open>a/b.ts\<close> (importing \<open>a/c.ts\<close>) and
  \<open>a/c.ts\<close>, the relationships block is one connector line, but a connector of length 1
  is the glyph once and the arrowhead, \<open>=>\<close>: the block is \<open>a_b_ts => a_c_ts\<close> and
  contains no \<open>==>\<close>.
\<close>

theorem relationships_example_single_arrow:
  "generatePlantUMLRelationships ''/w''
     [(EMPTY_LAYER,
       [\<lparr>name = ''a/b.ts'', filename = ''a/b.ts'', layer = EMPTY_LAYER,
         isImported = False, imports_of = [''a/c.ts'']\<rparr>,
        \<lparr>name = ''a/c.ts'', filename = ''a/c.ts'', layer = EMPTY_LAYER,
         isImported = False, imports_of = []\<rparr>])]
   = nl @ ''a_b_ts => a_c_ts''
   \<and> \<not> str_includes (generatePlantUMLRelationships ''/w''
     [(EMPTY_LAYER,
       [\<lparr>name = ''a/b.ts'', filename = ''a/b.ts'', layer = EMPTY_LAYER,
         isImported = False, imports_of = [''a/c.ts'']\<rparr>,
        \<lparr>name = ''a/c.ts'', filename = ''a/c.ts'', layer = EMPTY_LAYER,
         isImported = False, imports_of = []\<rparr>])]) ''==>''"
  by code_simp

text \<open>
  Claim C5, amended. For two components with filenames \<open>a/b.ts\<close> (whose imports contain
  \<open>a/c.ts\<close>) and \<open>a/c.ts\<close>, both in \<open>EMPTY_LAYER\<close> and both with \<open>isImported = false\<close>,
  the connection length is 1, the glyph is \<open>=\<close>, and the relationships block is exactly
  one connector line: the sanitized identifier of the first, \<open>=>\<close>, and the sanitized
  identifier of the second. This holds for any working directory and any two names.
\<close>

theorem relationships_example:
  fixes nb nc :: string
  defines "b \<equiv> \<lparr>name = nb, filename = ''a/b.ts'', layer = EMPTY_LAYER,
                 isImported = False, imports_of = [''a/c.ts'']\<rparr>"
      and "c \<equiv> \<lparr>name = nc, filename = ''a/c.ts'', layer = EMPTY_LAYER,
                 isImported = False, imports_of = []\<rparr>"
  shows "getConnectionLength cwd b c = 1
         \<and> getConnectionSign b c = ''=''
         \<and> generatePlantUMLRelationships cwd [(EMPTY_LAYER, [b, c])]
             = nl @ safeName nb @ '' => '' @ safeName nc"
proof -
  have len: "getConnectionLength cwd b c = 1"
    by (simp add: getConnectionLength_def b_def c_def levels_b_c)
  have sign: "getConnectionSign b c = ''=''"
    by (simp add: getConnectionSign_def b_def)
  have tb: "generatePlantUMLComponent b RELATIONSHIP = safeName nb"
    by (simp add: generatePlantUMLComponent_def endsWith_def b_def)
  have tc: "generatePlantUMLComponent c RELATIONSHIP = safeName nc"
    by (simp add: generatePlantUMLComponent_def endsWith_def c_def)
  have fb: "filename b = ''a/b.ts''" and fc: "filename c = ''a/c.ts''"
    and ib: "imports_of b = [''a/c.ts'']" and ic: "imports_of c = []"
    by (simp_all add: b_def c_def)
  have line1: "relationshipLine cwd [b, c] b ''a/c.ts'' = [safeName nb @ '' => '' @ safeName nc]"
    by (simp add: relationshipLine_def fb fc len sign tb tc)
  have line2: "relationshipLine cwd [c, b] b ''a/c.ts'' = [safeName nb @ '' => '' @ safeName nc]"
    by (simp add: relationshipLine_def fb fc len sign tb tc)
  have "getAllComponents [(EMPTY_LAYER, [b, c])] True = [b, c]
        \<or> getAllComponents [(EMPTY_LAYER, [b, c])] True = [c, b]"
    by (simp add: getAllComponents_def b_def c_def)
  then have "generatePlantUMLRelationships cwd [(EMPTY_LAYER, [b, c])]
             = nl @ safeName nb @ '' => '' @ safeName nc"
  proof
    assume "getAllComponents [(EMPTY_LAYER, [b, c])] True = [b, c]"
    then show ?thesis
      by (simp add: generatePlantUMLRelationships_def ib ic line1)
  next
    assume "getAllComponents [(EMPTY_LAYER, [b, c])] True = [c, b]"
    then show ?thesis
      by (simp add: generatePlantUMLRelationships_def ib ic line2)
  qed
  with len sign show ?thesis by simp
qed

section \<open>Properties of the skin block\<close>

lemma skinDirection_explicit:
  "direction output = Some d \<Longrightarrow> skinDirection output layers = HORIZONTAL"
  by (simp add: skinDirection_def)

lemma skinDirection_inferred:
  "direction output = None \<Longrightarrow>
   skinDirection output layers
     = (if length (getAllComponents layers False) > 20 then HORIZONTAL else VERTICAL)"
  by (simp add: skinDirection_def)

text \<open>
  Claim C1 says that an explicit direction is the direction of the skin block. The code
  evaluates \<open>(output.direction || count > 20) ? HORIZONTAL : VERTICAL\<close>, so an output that
  asks for the vertical direction, here with no component at all, gets the line
  \<open>left to right direction\<close>.
\<close>

theorem explicit_vertical_renders_horizontal:
  "skinDirection \<lparr>direction = Some VERTICAL, output_path = [''out.svg'']\<rparr> [] = HORIZONTAL
   \<and> generatePlantUMLSkin \<lparr>direction = Some VERTICAL, output_path = [''out.svg'']\<rparr> []
       = join nl ['''', ''scale max 1920 width'', ''left to right direction'',
                  generatePlantUMLSkinParams]"
  by (simp add: skinDirection_def generatePlantUMLSkin_def)

text \<open>
  Witness for claim C1: at that input the skin block is not the one with the line
  \<open>top to bottom direction\<close> that an explicit vertical direction calls for.
\<close>

theorem explicit_vertical_renders_horizontal_witness:
  "generatePlantUMLSkin \<lparr>direction = Some VERTICAL, output_path = [''out.svg'']\<rparr> []
     \<noteq> join nl [[], ''scale max 1920 width'', ''top to bottom direction'',
                generatePlantUMLSkinParams]"
  using explicit_vertical_renders_horizontal by (simp add: nl_def)

section \<open>The promise store, field by field\<close>

lemma status_settle [simp]:
  "status (settle p st s) q = (if status s p = Pending \<and> q = p then st else status s q)"
  by (simp add: settle_def)

lemma reactions_settle [simp]:
  "reactions (settle p st s) q = (if status s p = Pending \<and> q = p then [] else reactions s q)"
  by (simp add: settle_def)

lemma jobs_settle [simp]:
  "jobs (settle p st s)
   = jobs s @ (if status s p = Pending then concat (map (job_of st) (reactions s p)) else [])"
  by (simp add: settle_def)

lemma other_settle [simp]:
  "requestChain (settle p st s) = requestChain s"
  "calls (settle p st s) = calls s"
  "inflight (settle p st s) = inflight s"
  "accepted (settle p st s) = accepted s"
  "issued (settle p st s) = issued s"
  "logs (settle p st s) = logs s"
  "files (settle p st s) = files s"
  "fsops (settle p st s) = fsops s"
  by (simp_all add: settle_def)

lemma status_thenP [simp]: "status (thenP p f r d s) = status s"
  by (simp add: thenP_def split: pstatus.splits)

lemma reactions_thenP [simp]:
  "reactions (thenP p f r d s) q
   = (if status s p = Pending \<and> q = p then reactions s p @ [(f, r, d)] else reactions s q)"
  by (simp add: thenP_def split: pstatus.splits)

lemma jobs_thenP [simp]:
  "jobs (thenP p f r d s) = jobs s @ job_of (status s p) (f, r, d)"
  by (simp add: thenP_def split: pstatus.splits)

lemma other_thenP [simp]:
  "requestChain (thenP p f r d s) = requestChain s"
  "calls (thenP p f r d s) = calls s"
  "inflight (thenP p f r d s) = inflight s"
  "accepted (thenP p f r d s) = accepted s"
  "issued (thenP p f r d s) = issued s"
  "logs (thenP p f r d s) = logs s"
  "files (thenP p f r d s) = files s"
  "fsops (thenP p f r d s) = fsops s"
  by (simp_all add: thenP_def split: pstatus.splits)

lemma resolveP_plain: "\<not> is_thenable v \<Longrightarrow> resolveP p v s = settle p (Fulfilled v) s"
  by (cases v) (simp_all add: resolveP_def is_thenable_def)

lemma resolveP_thenable:
  "resolveP p (Thenable t) s
   = (if status s p = Pending then s\<lparr>jobs := jobs s @ [ThenableJob p t]\<rparr> else s)"
  by (simp add: resolveP_def)

lemma not_thenable [simp]:
  "\<not> is_thenable Undefined" "\<not> is_thenable (Buffer d)" "\<not> is_thenable (Text d)"
  "\<not> is_thenable (Utf8Text d)" "\<not> is_thenable (Error e)" "is_thenable (Thenable t)"
  by (simp_all add: is_thenable_def)

lemma is_buffer_simps [simp]:
  "is_buffer (Buffer d)" "\<not> is_buffer Undefined" "\<not> is_buffer (Text d)"
  "\<not> is_buffer (Utf8Text d)" "\<not> is_buffer (Error e)" "\<not> is_buffer (Thenable t)"
  by (simp_all add: is_buffer_def)

lemma state_ok_init: "state_ok (init fs) 0 Idle"
  by (simp add: state_ok_def chain_ok_def link_ok_def callers_ok_def peripheral_ok_def init_def)

lemma peripheral_job_mono: "peripheral_job n j \<Longrightarrow> n \<le> m \<Longrightarrow> peripheral_job m j"
  by (auto simp: peripheral_job_def split: job.splits pid.splits if_splits)

lemma reject_ok:
  assumes ok: "state_ok s a ph" and m: "match_w3 format = None"
  shows "state_ok (snd (convertToImage puml format s)) a ph"
proof -
  let ?s' = "snd (convertToImage puml format s)"
  from ok have ch: "chain_ok s a ph" and li: "link_ok s a ph" and ca: "callers_ok s a ph"
    and pe: "peripheral_ok s" by (simp_all add: state_ok_def)
  from pe have fresh: "status s (Caller (calls s)) = Pending" "reactions s (Caller (calls s)) = []"
    by (simp_all add: peripheral_ok_def)
  have "chain_ok ?s' a ph"
    using ch fresh m by (simp add: chain_ok_def convertToImage_def Let_def)
  moreover have "link_ok ?s' a ph"
    using li fresh m by (simp add: link_ok_def convertToImage_def Let_def)
  moreover have "callers_ok ?s' a ph"
    using ca fresh m by (auto simp: callers_ok_def convertToImage_def Let_def)
  moreover have "peripheral_ok ?s'"
    using pe fresh m
    by (auto simp: peripheral_ok_def convertToImage_def Let_def intro: peripheral_job_mono)
  ultimately show ?thesis by (simp add: state_ok_def)
qed

section \<open>The invariant is kept by every event\<close>

lemma link_request_append [simp]:
  "j < length acc \<Longrightarrow> link_request (acc @ xs) j = link_request acc j"
  by (simp add: link_request_def nth_append)

lemma link_handler_append [simp]:
  "j < length acc \<Longrightarrow> link_handler (acc @ xs) j = link_handler acc j"
  by (simp add: link_handler_def nth_append)

lemma link_caller_append [simp]:
  "j < length acc \<Longrightarrow> link_caller (acc @ xs) j = link_caller acc j"
  by (simp add: link_caller_def nth_append)

lemma link_last [simp]:
  "link_request (acc @ [(c, p, u)]) (length acc) = (length acc, p, u)"
  "link_handler (acc @ [(c, p, u)]) (length acc) = ChainLink p u (length acc) c"
  "link_caller (acc @ [(c, p, u)]) (length acc) = c"
  by (simp_all add: link_request_def link_handler_def link_caller_def)

lemma map_link_request_append [simp]:
  "k \<le> length acc \<Longrightarrow> map (link_request (acc @ xs)) [0..<k] = map (link_request acc) [0..<k]"
  by simp

lemma issued_upto_le: "a < n \<Longrightarrow> issued_upto a ph \<le> n"
  by (cases ph) simp_all

lemma phase_jobs_append [simp]:
  "a < length acc \<Longrightarrow> phase_jobs (acc @ xs) a ph = phase_jobs acc a ph"
proof (cases ph)
  case (GotResp r) then show "a < length acc \<Longrightarrow> ?thesis" by (cases r) simp_all
next
  case (SettledResp r) then show "a < length acc \<Longrightarrow> ?thesis" by (cases r) simp_all
qed simp_all

lemma req_reacts_append [simp]:
  "a < length acc \<Longrightarrow> req_reacts (acc @ xs) a ph = req_reacts acc a ph"
  by (cases ph) simp_all

lemma accept_ok:
  assumes ok: "state_ok s a ph" and m: "match_w3 format = Some m"
  shows "state_ok (snd (convertToImage puml format s)) a (after_accept ph)"
proof -
  let ?s' = "snd (convertToImage puml format s)"
  from ok have ch: "chain_ok s a ph" and li: "link_ok s a ph" and ca: "callers_ok s a ph"
    and pe: "peripheral_ok s" by (simp_all add: state_ok_def)
  from pe have fresh: "status s (Caller (calls s)) = Pending" "reactions s (Caller (calls s)) = []"
    by (simp_all add: peripheral_ok_def)
  from ch have rc: "requestChain s = Chain (length (accepted s))" and an: "a \<le> length (accepted s)"
    and idle: "(ph = Idle) = (a = length (accepted s))"
    by (simp_all add: chain_ok_def Let_def)
  have "chain_ok ?s' a (after_accept ph)"
  proof (cases "ph = Idle")
    case True
    with ch m rc show ?thesis
      by (simp add: chain_ok_def convertToImage_def Let_def after_accept_def)
  next
    case False
    with idle an have lt: "a < length (accepted s)" by simp
    with ch m rc False issued_upto_le [OF lt, of ph] show ?thesis
      by (auto simp: chain_ok_def convertToImage_def Let_def after_accept_def)
  qed
  moreover have "link_ok ?s' a (after_accept ph)"
  proof (cases "ph = Idle")
    case True
    with li m rc show ?thesis
      by (simp add: link_ok_def convertToImage_def Let_def after_accept_def)
  next
    case False
    with idle an have lt: "a < length (accepted s)" by simp
    with li m rc False show ?thesis
      by (simp add: link_ok_def convertToImage_def Let_def after_accept_def)
  qed
  moreover have "callers_ok ?s' a (after_accept ph)"
  proof -
    from ca have d: "distinct (map fst (accepted s))"
      and b: "\<forall>j < length (accepted s). link_caller (accepted s) j < calls s"
      by (simp_all add: callers_ok_def Let_def)
    have notin: "calls s \<notin> fst ` set (accepted s)"
    proof
      assume "calls s \<in> fst ` set (accepted s)"
      then obtain x where "x \<in> set (accepted s)" "fst x = calls s" by auto
      then obtain j where "j < length (accepted s)" "accepted s ! j = x"
        by (auto simp: in_set_conv_nth)
      with b \<open>fst x = calls s\<close> show False by (auto simp: link_caller_def)
    qed
    show ?thesis
      using ca m rc fresh notin idle an
      by (auto simp: callers_ok_def convertToImage_def Let_def after_accept_def less_Suc_eq
          split: if_splits)
  qed
  moreover have "peripheral_ok ?s'"
    using pe fresh m rc ch
    by (auto simp: peripheral_ok_def convertToImage_def Let_def chain_ok_def
        intro: peripheral_job_mono)
  ultimately show ?thesis by (simp add: state_ok_def)
qed

lemma state_okD:
  assumes "state_ok s a ph"
  shows "chain_ok s a ph" "link_ok s a ph" "callers_ok s a ph" "peripheral_ok s"
  using assms by (simp_all add: state_ok_def)

lemma chain_head:
  assumes "chain_ok s a ph" "jobs s = j # js" "is_chain_job j"
  shows "phase_jobs (accepted s) a ph = [j]" "filter is_chain_job js = []"
proof -
  from assms have eq: "j # filter is_chain_job js = phase_jobs (accepted s) a ph"
    by (simp add: chain_ok_def Let_def)
  have "length (phase_jobs (accepted s) a ph) \<le> 1"
  proof (cases ph)
    case (GotResp r) then show ?thesis by (cases r) simp_all
  next
    case (SettledResp r) then show ?thesis by (cases r) simp_all
  qed simp_all
  with eq show "filter is_chain_job js = []"
    by (metis One_nat_def Suc_le_mono length_Cons length_0_conv le_zero_eq)
  with eq show "phase_jobs (accepted s) a ph = [j]" by simp
qed

lemma run_queued:
  assumes ok: "state_ok s a Queued" and js: "jobs s = j # js" and cj: "is_chain_job j"
  shows "state_ok (runJob j (s\<lparr>jobs := js\<rparr>)) a OnWire"
proof -
  note d = state_okD [OF ok]
  from chain_head [OF d(1) js cj]
  have j: "j = ReactionJob (link_handler (accepted s) a) False Undefined (Chain (Suc a))"
    and rest: "filter is_chain_job js = []" by simp_all
  obtain c p u where acc: "accepted s ! a = (c, p, u)" by (cases "accepted s ! a")
  let ?s' = "runJob j (s\<lparr>jobs := js\<rparr>)"
  have "chain_ok ?s' a OnWire"
    using d(1) d(2) js rest acc
    by (simp add: j chain_ok_def link_ok_def Let_def link_handler_def link_request_def
        request_def resolveP_thenable)
  moreover have "link_ok ?s' a OnWire"
    using d(1) d(2) js rest acc
    by (simp add: j chain_ok_def link_ok_def Let_def link_handler_def link_caller_def
        request_def resolveP_thenable)
  moreover have "callers_ok ?s' a OnWire"
    using d(1) d(2) d(3) js rest acc
    by (simp add: j chain_ok_def link_ok_def callers_ok_def Let_def link_handler_def
        request_def resolveP_thenable)
  moreover have "peripheral_ok ?s'"
    using d(1) d(2) d(4) js rest acc
    by (auto simp: j chain_ok_def link_ok_def peripheral_ok_def Let_def link_handler_def
        request_def resolveP_thenable)
  ultimately show ?thesis by (simp add: state_ok_def)
qed

lemma run_onwire:
  assumes ok: "state_ok s a OnWire" and js: "jobs s = j # js" and cj: "is_chain_job j"
  shows "state_ok (runJob j (s\<lparr>jobs := js\<rparr>)) a Subscribed"
proof -
  note d = state_okD [OF ok]
  from chain_head [OF d(1) js cj]
  have j: "j = ThenableJob (Chain (Suc a)) (Caught a)"
    and rest: "filter is_chain_job js = []" by simp_all
  let ?s' = "runJob j (s\<lparr>jobs := js\<rparr>)"
  have "chain_ok ?s' a Subscribed"
    using d(1) d(2) js rest by (simp add: j chain_ok_def link_ok_def Let_def)
  moreover have "link_ok ?s' a Subscribed"
    using d(1) d(2) js rest by (simp add: j chain_ok_def link_ok_def Let_def)
  moreover have "callers_ok ?s' a Subscribed"
    using d(1) d(2) d(3) js rest by (simp add: j chain_ok_def link_ok_def callers_ok_def Let_def)
  moreover have "peripheral_ok ?s'"
    using d(1) d(2) d(4) js rest
    by (auto simp: j chain_ok_def link_ok_def peripheral_ok_def Let_def)
  ultimately show ?thesis by (simp add: state_ok_def)
qed

lemma run_gotresp_ok:
  assumes ok: "state_ok s a (GotResp (Ok img))" and js: "jobs s = j # js" and cj: "is_chain_job j"
  shows "state_ok (runJob j (s\<lparr>jobs := js\<rparr>)) a (SettledResp (Ok img))"
proof -
  note d = state_okD [OF ok]
  from chain_head [OF d(1) js cj]
  have j: "j = ReactionJob (ResolveCaller (link_caller (accepted s) a)) False (Buffer img) (Settled a)"
    and rest: "filter is_chain_job js = []" by simp_all
  from d(1) have lt: "a < length (accepted s)" by (auto simp: chain_ok_def Let_def)
  from d(3) lt have cs: "status s (Caller (link_caller (accepted s) a)) = Pending"
    and cb: "link_caller (accepted s) a < calls s"
    by (simp_all add: callers_ok_def Let_def)
  from d(4) have cr: "reactions s (Caller (link_caller (accepted s) a)) = []
      \<or> (\<exists>p b. reactions s (Caller (link_caller (accepted s) a))
               = [(SaveImage p b, NoHandler, Saved (link_caller (accepted s) a))])"
    by (simp add: peripheral_ok_def)
  let ?s' = "runJob j (s\<lparr>jobs := js\<rparr>)"
  have "chain_ok ?s' a (SettledResp (Ok img))"
    using d(1) d(2) js rest cs cr
    by (auto simp: j chain_ok_def link_ok_def Let_def resolveP_plain)
  moreover have "link_ok ?s' a (SettledResp (Ok img))"
    using d(1) d(2) js rest cs
    by (simp add: j chain_ok_def link_ok_def Let_def resolveP_plain)
  moreover have "callers_ok ?s' a (SettledResp (Ok img))"
  proof -
    from d(3) have dist: "distinct (map fst (accepted s))" by (simp add: callers_ok_def Let_def)
    have inj: "\<And>k. k < length (accepted s) \<Longrightarrow>
        (link_caller (accepted s) k = link_caller (accepted s) a) = (k = a)"
      using dist lt by (auto simp: link_caller_def distinct_conv_nth)
    show ?thesis
      using d(2) d(3) js rest cs lt inj
      by (auto simp: j link_ok_def callers_ok_def Let_def resolveP_plain)
  qed
  moreover have "peripheral_ok ?s'"
  proof (rule disjE [OF cr])
    assume "reactions s (Caller (link_caller (accepted s) a)) = []"
    then show ?thesis
      using d(2) d(4) js rest cs cb
      by (auto simp: j link_ok_def peripheral_ok_def Let_def resolveP_plain)
  next
    assume "\<exists>p b. reactions s (Caller (link_caller (accepted s) a))
               = [(SaveImage p b, NoHandler, Saved (link_caller (accepted s) a))]"
    then obtain p b where "reactions s (Caller (link_caller (accepted s) a))
               = [(SaveImage p b, NoHandler, Saved (link_caller (accepted s) a))]" by blast
    then show ?thesis
      using d(2) d(4) js rest cs cb
      by (auto simp: j link_ok_def peripheral_ok_def Let_def resolveP_plain peripheral_job_def
          is_save_def)
  qed
  ultimately show ?thesis by (simp add: state_ok_def)
qed

lemma run_gotresp_failed:
  assumes ok: "state_ok s a (GotResp (Failed e))" and js: "jobs s = j # js" and cj: "is_chain_job j"
  shows "state_ok (runJob j (s\<lparr>jobs := js\<rparr>)) a (SettledResp (Failed e))"
proof -
  note d = state_okD [OF ok]
  from chain_head [OF d(1) js cj]
  have j: "j = ReactionJob NoHandler True (Error e) (Settled a)"
    and rest: "filter is_chain_job js = []" by simp_all
  let ?s' = "runJob j (s\<lparr>jobs := js\<rparr>)"
  have "chain_ok ?s' a (SettledResp (Failed e))"
    using d(1) d(2) js rest by (simp add: j chain_ok_def link_ok_def Let_def)
  moreover have "link_ok ?s' a (SettledResp (Failed e))"
    using d(1) d(2) js rest by (simp add: j chain_ok_def link_ok_def Let_def)
  moreover have "callers_ok ?s' a (SettledResp (Failed e))"
    using d(2) d(3) js rest by (simp add: j link_ok_def callers_ok_def Let_def)
  moreover have "peripheral_ok ?s'"
    using d(2) d(4) js rest by (auto simp: j link_ok_def peripheral_ok_def Let_def)
  ultimately show ?thesis by (simp add: state_ok_def)
qed

lemma run_settled:
  assumes ok: "state_ok s a (SettledResp r)" and js: "jobs s = j # js" and cj: "is_chain_job j"
  shows "state_ok (runJob j (s\<lparr>jobs := js\<rparr>)) a (CaughtDone r)"
proof -
  note d = state_okD [OF ok]
  from chain_head [OF d(1) js cj]
  have j: "phase_jobs (accepted s) a (SettledResp r) = [j]"
    and rest: "filter is_chain_job js = []" by simp_all
  let ?s' = "runJob j (s\<lparr>jobs := js\<rparr>)"
  have "chain_ok ?s' a (CaughtDone r)"
    using d(1) d(2) js rest j
    by (cases r) (auto simp: chain_ok_def link_ok_def Let_def resolveP_plain)
  moreover have "link_ok ?s' a (CaughtDone r)"
    using d(1) d(2) js rest j
    by (cases r) (auto simp: chain_ok_def link_ok_def Let_def resolveP_plain)
  moreover have "callers_ok ?s' a (CaughtDone r)"
    using d(2) d(3) js rest j
    by (cases r) (auto simp: link_ok_def callers_ok_def Let_def resolveP_plain)
  moreover have "peripheral_ok ?s'"
    using d(2) d(4) js rest j
    by (cases r) (auto simp: link_ok_def peripheral_ok_def Let_def resolveP_plain)
  ultimately show ?thesis by (simp add: state_ok_def)
qed

lemma run_caughtdone:
  assumes ok: "state_ok s a (CaughtDone r)" and js: "jobs s = j # js" and cj: "is_chain_job j"
  shows "state_ok (runJob j (s\<lparr>jobs := js\<rparr>)) (Suc a) (after_done s a)"
proof -
  note d = state_okD [OF ok]
  from chain_head [OF d(1) js cj]
  have j: "j = ReactionJob (ResolveFn (Chain (Suc a))) False Undefined (Adopt (Chain (Suc a)))"
    and rest: "filter is_chain_job js = []" by simp_all
  from d(1) have lt: "a < length (accepted s)" by (auto simp: chain_ok_def Let_def)
  from d(4) have ad: "reactions s (Adopt (Chain (Suc a))) = []" by (simp add: peripheral_ok_def)
  let ?s' = "runJob j (s\<lparr>jobs := js\<rparr>)"
  have "chain_ok ?s' (Suc a) (after_done s a)"
    using d(1) d(2) js rest lt ad
    by (auto simp: j chain_ok_def link_ok_def Let_def resolveP_plain after_done_def)
  moreover have "link_ok ?s' (Suc a) (after_done s a)"
    using d(1) d(2) js rest lt ad
    by (auto simp: j chain_ok_def link_ok_def Let_def resolveP_plain after_done_def less_Suc_eq)
  moreover have "callers_ok ?s' (Suc a) (after_done s a)"
    using d(2) d(3) js rest lt ad
    by (cases r)
       (auto simp: j link_ok_def callers_ok_def Let_def resolveP_plain after_done_def less_Suc_eq)
  moreover have "peripheral_ok ?s'"
    using d(1) d(2) d(4) js rest lt ad
    by (auto simp: j chain_ok_def link_ok_def peripheral_ok_def Let_def resolveP_plain)
  ultimately show ?thesis by (simp add: state_ok_def)
qed

lemma fields_writeFileSync [simp]:
  "status (writeFileSync p d s) = status s"
  "reactions (writeFileSync p d s) = reactions s"
  "jobs (writeFileSync p d s) = jobs s"
  "requestChain (writeFileSync p d s) = requestChain s"
  "calls (writeFileSync p d s) = calls s"
  "inflight (writeFileSync p d s) = inflight s"
  "accepted (writeFileSync p d s) = accepted s"
  "issued (writeFileSync p d s) = issued s"
  "logs (writeFileSync p d s) = logs s"
  by (simp_all add: writeFileSync_def)

lemma fields_unlinkSync [simp]:
  "status (unlinkSync p s) = status s"
  "reactions (unlinkSync p s) = reactions s"
  "jobs (unlinkSync p s) = jobs s"
  "requestChain (unlinkSync p s) = requestChain s"
  "calls (unlinkSync p s) = calls s"
  "inflight (unlinkSync p s) = inflight s"
  "accepted (unlinkSync p s) = accepted s"
  "issued (unlinkSync p s) = issued s"
  "logs (unlinkSync p s) = logs s"
  by (simp_all add: unlinkSync_def)

lemma run_peripheral:
  assumes ok: "state_ok s a ph" and js: "jobs s = j # js" and cj: "\<not> is_chain_job j"
  shows "state_ok (runJob j (s\<lparr>jobs := js\<rparr>)) a ph"
proof -
  note d = state_okD [OF ok]
  from d(4) js cj have pj: "peripheral_job (calls s) j" by (auto simp: peripheral_ok_def)
  from d(1) js cj have rest: "filter is_chain_job js = phase_jobs (accepted s) a ph"
    by (simp add: chain_ok_def Let_def)
  obtain h rejected v derived where j: "j = ReactionJob h rejected v derived"
    using pj by (cases j) (simp_all add: peripheral_job_def)
  let ?s' = "runJob j (s\<lparr>jobs := js\<rparr>)"
  from pj j consider
      (saveR) c where "derived = Saved c" "c < calls s" "rejected" "h = NoHandler"
    | (saveF) c p b img where "derived = Saved c" "c < calls s" "\<not> rejected"
        "h = SaveImage p b" "v = Buffer img"
    | (rethR) c where "derived = Rethrown c" "c < calls s" "rejected" "h = Rethrow"
    | (rethF) c where "derived = Rethrown c" "c < calls s" "\<not> rejected" "h = NoHandler"
        "\<not> is_thenable v"
    by (cases derived; cases h; cases v)
       (auto simp: peripheral_job_def is_save_def split: if_splits)
  then show ?thesis
  proof cases
    case saveR
    from d(4) have sr: "reactions s (Saved c) = []
        \<or> reactions s (Saved c) = [(NoHandler, Rethrow, Rethrown c)]"
      by (simp add: peripheral_ok_def)
    have "chain_ok ?s' a ph"
      using d(1) js rest saveR sr by (auto simp: j chain_ok_def Let_def)
    moreover have "link_ok ?s' a ph"
      using d(2) js saveR by (simp add: j link_ok_def Let_def)
    moreover have "callers_ok ?s' a ph"
      using d(3) js saveR by (simp add: j callers_ok_def Let_def)
    moreover have "peripheral_ok ?s'"
      using sr
    proof
      assume "reactions s (Saved c) = []"
      then show ?thesis
        using d(4) js saveR by (auto simp: j peripheral_ok_def)
    next
      assume r: "reactions s (Saved c) = [(NoHandler, Rethrow, Rethrown c)]"
      have "peripheral_job (calls s) (ReactionJob Rethrow True v (Rethrown c))"
        using saveR by (simp add: peripheral_job_def)
      with r show ?thesis
        using d(4) js saveR by (auto simp: j peripheral_ok_def)
    qed
    ultimately show ?thesis by (simp add: state_ok_def)
  next
    case saveF
    from d(4) have sr: "reactions s (Saved c) = []
        \<or> reactions s (Saved c) = [(NoHandler, Rethrow, Rethrown c)]"
      by (simp add: peripheral_ok_def)
    have "chain_ok ?s' a ph"
      using d(1) js rest saveF sr
      by (auto simp: j chain_ok_def Let_def resolveP_plain)
    moreover have "link_ok ?s' a ph"
      using d(2) js saveF by (simp add: j link_ok_def Let_def resolveP_plain)
    moreover have "callers_ok ?s' a ph"
      using d(3) js saveF by (simp add: j callers_ok_def Let_def resolveP_plain)
    moreover have "peripheral_ok ?s'"
      using sr
    proof
      assume "reactions s (Saved c) = []"
      then show ?thesis
        using d(4) js saveF
        by (auto simp: j peripheral_ok_def resolveP_plain)
    next
      assume r: "reactions s (Saved c) = [(NoHandler, Rethrow, Rethrown c)]"
      have "peripheral_job (calls s)
              (ReactionJob NoHandler False (Utf8Text img) (Rethrown c))"
        using saveF by (simp add: peripheral_job_def)
      with r show ?thesis
        using d(4) js saveF
        by (auto simp: j peripheral_ok_def resolveP_plain)
    qed
    ultimately show ?thesis by (simp add: state_ok_def)
  next
    case rethR
    from d(4) have sr: "reactions s (Rethrown c) = []" by (simp add: peripheral_ok_def)
    have "chain_ok ?s' a ph"
      using d(1) js rest rethR sr by (auto simp: j chain_ok_def Let_def)
    moreover have "link_ok ?s' a ph"
      using d(2) js rethR by (simp add: j link_ok_def Let_def)
    moreover have "callers_ok ?s' a ph"
      using d(3) js rethR by (simp add: j callers_ok_def Let_def)
    moreover have "peripheral_ok ?s'"
      using d(4) js rethR sr by (auto simp: j peripheral_ok_def)
    ultimately show ?thesis by (simp add: state_ok_def)
  next
    case rethF
    from d(4) have sr: "reactions s (Rethrown c) = []" by (simp add: peripheral_ok_def)
    have "chain_ok ?s' a ph"
      using d(1) js rest rethF sr by (auto simp: j chain_ok_def Let_def resolveP_plain)
    moreover have "link_ok ?s' a ph"
      using d(2) js rethF by (simp add: j link_ok_def Let_def resolveP_plain)
    moreover have "callers_ok ?s' a ph"
      using d(3) js rethF by (simp add: j callers_ok_def Let_def resolveP_plain)
    moreover have "peripheral_ok ?s'"
      using d(4) js rethF sr by (auto simp: j peripheral_ok_def resolveP_plain)
    ultimately show ?thesis by (simp add: state_ok_def)
  qed
qed

lemma wire_subscribed:
  assumes ok: "state_ok s a ph" and q: "jobs s = []" and i: "i \<in> fst ` set (inflight s)"
  shows "ph = Subscribed" "i = a" "a < length (accepted s)"
proof -
  note d = state_okD [OF ok]
  from d(1) i have w: "on_wire ph" and fl: "inflight s = [link_request (accepted s) a]"
    by (auto simp: chain_ok_def Let_def split: if_splits)
  from d(1) q have "phase_jobs (accepted s) a ph = []" by (simp add: chain_ok_def Let_def)
  with w show "ph = Subscribed" by (cases ph) simp_all
  from fl i show "i = a" by (simp add: link_request_def split: prod.splits)
  from d(1) w show "a < length (accepted s)" by (cases ph) (auto simp: chain_ok_def Let_def)
qed

lemma respond_ok:
  assumes ok: "state_ok s a ph" and f: "fire cfg (Respond i r) s = Some s'"
  shows "state_ok s' a (GotResp r)"
proof -
  from f have q: "jobs s = []" and i: "i \<in> fst ` set (inflight s)"
    by (simp_all split: if_splits)
  from wire_subscribed [OF ok q i] have ph: "ph = Subscribed" and ia: "i = a"
    and lt: "a < length (accepted s)" by simp_all
  note d = state_okD [OF ok [unfolded ph]]
  have fa: "fst (link_request (accepted s) a) = a"
    by (simp add: link_request_def split: prod.splits)
  from f q i have s': "s' = (let t = s\<lparr>inflight := filter (\<lambda>q. fst q \<noteq> i) (inflight s)\<rparr>
                 in case r of Ok d \<Rightarrow> resolveP (Req i) (Buffer d) t
                    | Failed e \<Rightarrow> settle (Req i) (Rejected (Error e)) t)"
    by simp
  have "chain_ok s' a (GotResp r)"
    using d(1) d(2) q fa lt
    by (cases r) (simp_all add: s' ia chain_ok_def link_ok_def Let_def resolveP_plain)
  moreover have "link_ok s' a (GotResp r)"
    using d(1) d(2) q fa
    by (cases r) (simp_all add: s' ia chain_ok_def link_ok_def Let_def resolveP_plain)
  moreover have "callers_ok s' a (GotResp r)"
    using d(2) d(3) q fa
    by (cases r) (simp_all add: s' ia link_ok_def callers_ok_def Let_def resolveP_plain)
  moreover have "peripheral_ok s'"
    using d(2) d(4) q fa
    by (cases r) (simp_all add: s' ia link_ok_def peripheral_ok_def Let_def resolveP_plain)
  ultimately show ?thesis by (simp add: state_ok_def)
qed

lemma state_ok_unlinkSync [simp]: "state_ok (unlinkSync p s) a ph = state_ok s a ph"
  by (simp add: state_ok_def chain_ok_def link_ok_def callers_ok_def peripheral_ok_def)

lemma state_ok_writeFileSync [simp]: "state_ok (writeFileSync p d s) a ph = state_ok s a ph"
  by (simp add: state_ok_def chain_ok_def link_ok_def callers_ok_def peripheral_ok_def)

lemma convertToImage_fresh:
  fixes puml format :: string
  assumes ok: "state_ok s a ph"
  defines "s2 \<equiv> snd (convertToImage puml format s)"
  shows "calls s2 = Suc (calls s)" "reactions s2 (Caller (calls s)) = []"
    "status s2 (Saved (calls s)) = Pending" "reactions s2 (Saved (calls s)) = []"
    "\<forall>v. status s2 (Caller (calls s)) \<noteq> Fulfilled v"
proof -
  note d = state_okD [OF ok]
  from d(4) have fresh: "status s (Caller (calls s)) = Pending"
    "reactions s (Caller (calls s)) = []" "status s (Saved (calls s)) = Pending"
    "reactions s (Saved (calls s)) = []"
    by (simp_all add: peripheral_ok_def)
  from d(1) have rc: "requestChain s = Chain (length (accepted s))"
    by (simp add: chain_ok_def Let_def)
  show "calls s2 = Suc (calls s)"
    by (simp add: s2_def convertToImage_def Let_def split: option.splits)
  show "reactions s2 (Caller (calls s)) = []"
    using fresh rc by (simp add: s2_def convertToImage_def Let_def split: option.splits)
  show "status s2 (Saved (calls s)) = Pending"
    using fresh rc by (simp add: s2_def convertToImage_def Let_def split: option.splits)
  show "reactions s2 (Saved (calls s)) = []"
    using fresh rc by (simp add: s2_def convertToImage_def Let_def split: option.splits)
  show "\<forall>v. status s2 (Caller (calls s)) \<noteq> Fulfilled v"
    using fresh rc by (simp add: s2_def convertToImage_def Let_def split: option.splits)
qed

lemma attach_ok:
  assumes ok: "state_ok s a ph" and c: "c < calls s"
    and cr: "reactions s (Caller c) = []"
    and ss: "status s (Saved c) = Pending" and sr: "reactions s (Saved c) = []"
    and nf: "\<forall>v. status s (Caller c) \<noteq> Fulfilled v"
  shows "state_ok (thenP (Saved c) NoHandler Rethrow (Rethrown c)
           (thenP (Caller c) (SaveImage p b) NoHandler (Saved c) s)) a ph"
proof -
  note d = state_okD [OF ok]
  let ?s' = "thenP (Saved c) NoHandler Rethrow (Rethrown c)
           (thenP (Caller c) (SaveImage p b) NoHandler (Saved c) s)"
  have jobs': "jobs ?s' = jobs s @ job_of (status s (Caller c)) (SaveImage p b, NoHandler, Saved c)"
    using ss by simp
  have nj: "\<forall>j \<in> set (job_of (status s (Caller c)) (SaveImage p b, NoHandler, Saved c)).
              \<not> is_chain_job j \<and> peripheral_job (calls s) j"
    using nf c by (cases "status s (Caller c)") (simp_all add: peripheral_job_def)
  then have fl: "filter is_chain_job (jobs ?s') = filter is_chain_job (jobs s)"
    unfolding jobs' by (simp add: filter_empty_conv)
  have "chain_ok ?s' a ph"
    using d(1) fl ss by (simp add: chain_ok_def Let_def)
  moreover have "link_ok ?s' a ph"
    using d(2) ss by (simp add: link_ok_def Let_def)
  moreover have "callers_ok ?s' a ph"
    using d(3) ss by (simp add: callers_ok_def Let_def)
  moreover have "peripheral_ok ?s'"
    using d(4) ss cr sr c nj unfolding peripheral_ok_def jobs'
    by (auto simp del: jobs_thenP)
  ultimately show ?thesis by (simp add: state_ok_def)
qed

lemma direct_ok:
  assumes ok: "state_ok s a ph"
  shows "state_ok (s\<lparr>calls := Suc (calls s),
                     status := (status s)(Direct (calls s) := Fulfilled (Text puml))\<rparr>) a ph"
proof -
  note d = state_okD [OF ok]
  let ?s' = "s\<lparr>calls := Suc (calls s),
               status := (status s)(Direct (calls s) := Fulfilled (Text puml))\<rparr>"
  have "chain_ok ?s' a ph" using d(1) by (simp add: chain_ok_def Let_def)
  moreover have "link_ok ?s' a ph" using d(2) by (simp add: link_ok_def Let_def)
  moreover have "callers_ok ?s' a ph" using d(3) by (auto simp: callers_ok_def Let_def)
  moreover have "peripheral_ok ?s'"
    using d(4) by (auto simp: peripheral_ok_def intro: peripheral_job_mono)
  ultimately show ?thesis by (simp add: state_ok_def)
qed

lemma convertToImage_ok:
  assumes ok: "state_ok s a ph"
  shows "\<exists>ph'. state_ok (snd (convertToImage puml format s)) a ph'"
proof (cases "match_w3 format")
  case None
  from reject_ok [OF ok None] show ?thesis by blast
next
  case (Some m)
  from accept_ok [OF ok Some] show ?thesis by blast
qed

lemma convert_ok:
  assumes ok: "state_ok s a ph"
  shows "\<exists>ph'. state_ok (snd (convert cfg pathOrType puml s)) a ph'"
proof -
  define fullExportPath where
    "fullExportPath = path_resolve (process_cwd cfg) [config_directory cfg, pathOrType]"
  define ext where "ext = path_extname fullExportPath"
  define s1 where
    "s1 = (if existsSync fullExportPath s then unlinkSync fullExportPath s else s)"
  have ok1: "state_ok s1 a ph" using ok by (simp add: s1_def)
  show ?thesis
  proof (cases "replace_dot ext \<in> set (output_formats cfg) \<or> pathOrType \<in> set (output_formats cfg)")
    case True
    define s2 where "s2 = snd (convertToImage puml (if ext \<noteq> [] then ext else pathOrType) s1)"
    from convertToImage_ok [OF ok1] obtain ph' where ok2: "state_ok s2 a ph'"
      unfolding s2_def by blast
    note fr = convertToImage_fresh [OF ok1, of puml "if ext \<noteq> [] then ext else pathOrType",
        folded s2_def]
    have eq: "snd (convert cfg pathOrType puml s)
        = thenP (Saved (calls s1)) NoHandler Rethrow (Rethrown (calls s1))
           (thenP (Caller (calls s1))
              (SaveImage fullExportPath (replace_dot ext \<in> set (output_formats cfg)))
              NoHandler (Saved (calls s1)) s2)"
      using True by (simp add: convert_def Let_def fullExportPath_def ext_def s1_def s2_def)
    have "state_ok (thenP (Saved (calls s1)) NoHandler Rethrow (Rethrown (calls s1))
           (thenP (Caller (calls s1))
              (SaveImage fullExportPath (replace_dot ext \<in> set (output_formats cfg)))
              NoHandler (Saved (calls s1)) s2)) a ph'"
      by (rule attach_ok [OF ok2]) (use fr in simp_all)
    then show ?thesis unfolding eq by blast
  next
    case False
    define s2 where
      "s2 = (if ext = ''.puml'' then writeFileSync fullExportPath puml s1 else s1)"
    have ok2: "state_ok s2 a ph" using ok1 by (simp add: s2_def)
    have c2: "calls s2 = calls s1" by (simp add: s2_def)
    have eq: "snd (convert cfg pathOrType puml s)
        = s2\<lparr>calls := Suc (calls s2),
              status := (status s2)(Direct (calls s2) := Fulfilled (Text puml))\<rparr>"
      using False
      by (simp add: convert_def Let_def fullExportPath_def ext_def s1_def s2_def)
    from direct_ok [OF ok2, of puml] show ?thesis unfolding eq by blast
  qed
qed

lemma runJob_ok:
  assumes ok: "state_ok s a ph" and js: "jobs s = j # js"
  shows "\<exists>a' ph'. state_ok (runJob j (s\<lparr>jobs := js\<rparr>)) a' ph'"
proof (cases "is_chain_job j")
  case False
  from run_peripheral [OF ok js False] show ?thesis by blast
next
  case True
  from chain_head [OF state_okD(1) [OF ok] js True]
  have pj: "phase_jobs (accepted s) a ph = [j]" by simp
  show ?thesis
  proof (cases ph)
    case Idle with pj show ?thesis by simp
  next
    case Queued with run_queued [OF _ js True] ok show ?thesis by blast
  next
    case OnWire with run_onwire [OF _ js True] ok show ?thesis by blast
  next
    case Subscribed with pj show ?thesis by simp
  next
    case (GotResp r)
    show ?thesis
    proof (cases r)
      case (Ok d)
      with GotResp run_gotresp_ok [OF _ js True] ok show ?thesis by blast
    next
      case (Failed e)
      with GotResp run_gotresp_failed [OF _ js True] ok show ?thesis by blast
    qed
  next
    case (SettledResp r) with run_settled [OF _ js True] ok show ?thesis by blast
  next
    case (CaughtDone r) with run_caughtdone [OF _ js True] ok show ?thesis by blast
  qed
qed

lemma fire_ok:
  assumes ok: "state_ok s a ph" and f: "fire cfg e s = Some s'"
  shows "\<exists>a' ph'. state_ok s' a' ph'"
proof (cases e)
  case (ConvertToImage puml format)
  with f convertToImage_ok [OF ok, of puml format] show ?thesis by auto
next
  case (Convert pathOrType puml)
  with f convert_ok [OF ok, of cfg pathOrType puml] show ?thesis by auto
next
  case RunJob
  with f obtain j js where js: "jobs s = j # js" and s': "s' = runJob j (s\<lparr>jobs := js\<rparr>)"
    by (auto split: list.splits)
  from runJob_ok [OF ok js] s' show ?thesis by simp
next
  case (Respond i r)
  with f respond_ok [OF ok] show ?thesis by blast
qed

lemma reachable_ok: "reachable cfg s \<Longrightarrow> \<exists>a ph. state_ok s a ph"
proof (induction rule: reachable.induct)
  case (reachable_init fs)
  from state_ok_init show ?case by blast
next
  case (reachable_step s e s')
  then obtain a ph where "state_ok s a ph" by blast
  from fire_ok [OF this reachable_step(2)] show ?case .
qed

lemma run_reachable: "reachable cfg s \<Longrightarrow> run cfg es s = Some s' \<Longrightarrow> reachable cfg s'"
proof (induction es arbitrary: s)
  case Nil
  then show ?case by simp
next
  case (Cons e es)
  from Cons.prems(2) obtain t where t: "fire cfg e s = Some t" and r: "run cfg es t = Some s'"
    by (auto split: option.splits)
  from Cons.prems(1) t have "reachable cfg t" by (rule reachable_step)
  from Cons.IH [OF this r] show ?case .
qed

section \<open>Properties of the export sequencer\<close>

text \<open>
  Claim C8, as stated, fails: the chain is not shared across the whole process. It is
  the instance field \<open>requestChain\<close>, so two \<open>Generator\<close> objects in one process have
  two chains. After one conversion is submitted to each and the two queued jobs have
  run, two remote calls are in flight at the same time.
\<close>

theorem two_generators_two_requests_in_flight:
  "map_option in_flight_total
     (run_at \<lparr>config_directory = ''out'', output_formats = [''svg'', ''png''],
              process_cwd = ''/w''\<rparr>
        [(0, ConvertToImage ''A'' ''svg''), (1, ConvertToImage ''B'' ''svg''),
         (0, RunJob), (1, RunJob)]
        [init Map.empty, init Map.empty])
   = Some 2"
  by code_simp

text \<open>
  Claim C8, amended. All conversion requests submitted to one \<open>Generator\<close> instance are
  chained through its field \<open>requestChain\<close>: in every reachable state of the instance at
  most one remote call is in flight, and the requests handed to \<open>https.request\<close> so far
  are, in order, the first of the accepted submissions (the \<open>k\<close>-th request issued is
  the \<open>k\<close>-th accepted one, with its path and payload), whatever the responses and
  their delays. A response is only delivered while no job is queued.
\<close>

theorem one_request_in_flight:
  assumes "reachable cfg s"
  shows "length (inflight s) \<le> 1
         \<and> length (issued s) \<le> length (accepted s)
         \<and> (\<forall>k < length (issued s). issued s ! k = (k, snd (accepted s ! k)))
         \<and> set (inflight s) \<subseteq> set (issued s)"
proof -
  from reachable_ok [OF assms] obtain a ph where ok: "state_ok s a ph" by blast
  note d = state_okD [OF ok]
  from d(1) have fl: "inflight s = (if on_wire ph then [link_request (accepted s) a] else [])"
    and iss: "issued s = map (link_request (accepted s)) [0..<issued_upto a ph]"
    and an: "a \<le> length (accepted s)" and idle: "(ph = Idle) = (a = length (accepted s))"
    by (simp_all add: chain_ok_def Let_def)
  have up: "issued_upto a ph \<le> length (accepted s)"
    using an idle by (cases ph) auto
  have "length (inflight s) \<le> 1" by (simp add: fl)
  moreover have "length (issued s) \<le> length (accepted s)" using up by (simp add: iss)
  moreover have "\<forall>k < length (issued s). issued s ! k = (k, snd (accepted s ! k))"
    by (auto simp: iss link_request_def split: prod.splits)
  moreover have "set (inflight s) \<subseteq> set (issued s)"
    by (cases ph) (auto simp: fl iss)
  ultimately show ?thesis by blast
qed

text \<open>
  Witness for claim C8 (amended): three conversions are submitted at once; the first
  request goes out, its response arrives, and only then the second request goes out.
  In the state reached, the second request alone is in flight and the requests issued
  are the first two submissions in their order.
\<close>

theorem one_request_in_flight_witness:
  "reachable \<lparr>config_directory = ''out'', output_formats = [''svg'', ''png''], process_cwd = ''/w''\<rparr>
     (the (run \<lparr>config_directory = ''out'', output_formats = [''svg'', ''png''],
                 process_cwd = ''/w''\<rparr>
        [ConvertToImage ''A'' ''svg'', ConvertToImage ''B'' ''png'', ConvertToImage ''C'' ''svg'',
         RunJob, RunJob, Respond 0 (Ok ''img''), RunJob, RunJob, RunJob, RunJob, RunJob]
        (init Map.empty)))
   \<and> inflight (the (run \<lparr>config_directory = ''out'', output_formats = [''svg'', ''png''],
                 process_cwd = ''/w''\<rparr>
        [ConvertToImage ''A'' ''svg'', ConvertToImage ''B'' ''png'', ConvertToImage ''C'' ''svg'',
         RunJob, RunJob, Respond 0 (Ok ''img''), RunJob, RunJob, RunJob, RunJob, RunJob]
        (init Map.empty))) = [(1, ''/png'', ''B'')]
   \<and> issued (the (run \<lparr>config_directory = ''out'', output_formats = [''svg'', ''png''],
                 process_cwd = ''/w''\<rparr>
        [ConvertToImage ''A'' ''svg'', ConvertToImage ''B'' ''png'', ConvertToImage ''C'' ''svg'',
         RunJob, RunJob, Respond 0 (Ok ''img''), RunJob, RunJob, RunJob, RunJob, RunJob]
        (init Map.empty))) = [(0, ''/svg'', ''A''), (1, ''/png'', ''B'')]"
proof -
  let ?cfg = "\<lparr>config_directory = ''out'', output_formats = [''svg'', ''png''],
               process_cwd = ''/w''\<rparr>"
  let ?es = "[ConvertToImage ''A'' ''svg'', ConvertToImage ''B'' ''png'',
              ConvertToImage ''C'' ''svg'', RunJob, RunJob, Respond 0 (Ok ''img''),
              RunJob, RunJob, RunJob, RunJob, RunJob]"
  have "run ?cfg ?es (init Map.empty) \<noteq> None" by code_simp
  then obtain s where s: "run ?cfg ?es (init Map.empty) = Some s" by blast
  have r: "reachable ?cfg s" by (rule run_reachable [OF reachable_init s])
  have fl: "inflight (the (run ?cfg ?es (init Map.empty))) = [(1, ''/png'', ''B'')]"
    by code_simp
  have iss: "issued (the (run ?cfg ?es (init Map.empty))) = [(0, ''/svg'', ''A''), (1, ''/png'', ''B'')]"
    by code_simp
  have the_eq: "the (run ?cfg ?es (init Map.empty)) = s" by (simp only: s option.sel)
  from one_request_in_flight [OF r] have "length (inflight s) \<le> 1" by blast
  with r fl [unfolded the_eq] iss [unfolded the_eq] show ?thesis
    unfolding the_eq by blast
qed

lemma match_w3_None_short: "length s < 3 \<Longrightarrow> match_w3 s = None"
  by (cases s rule: match_w3.cases) simp_all

lemma match_w3_first:
  "match_w3 s = Some m \<Longrightarrow>
   \<exists>pre post. s = pre @ m @ post \<and> length m = 3 \<and> list_all is_word m
              \<and> match_w3 (pre @ take 2 m) = None"
proof (induction s rule: match_w3.induct)
  case (1 a b c rest)
  show ?case
  proof (cases "is_word a \<and> is_word b \<and> is_word c")
    case True
    with 1(2) have m: "m = [a, b, c]" by simp
    show ?thesis
      by (rule exI [of _ "[]"], rule exI [of _ rest]) (simp add: m True)
  next
    case False
    with 1(2) have "match_w3 (b # c # rest) = Some m" by simp
    from 1(1) [OF False this] obtain pre post where
      eq: "b # c # rest = pre @ m @ post" and len: "length m = 3" and w: "list_all is_word m"
      and none: "match_w3 (pre @ take 2 m) = None" by blast
    from len have l2: "length (pre @ take 2 m) \<ge> 2" by simp
    have pref: "take 2 (pre @ take 2 m) = take 2 (pre @ m @ post)"
      using len by (cases pre; cases m) (auto simp: take_Cons' split: if_splits)
    have bc: "take 2 (pre @ m @ post) = [b, c]"
      by (simp add: eq [symmetric] numeral_2_eq_2)
    have t2: "take 2 (pre @ take 2 m) = [b, c]" by (rule trans [OF pref bc])
    define r where "r = drop 2 (pre @ take 2 m)"
    have "[b, c] @ r = pre @ take 2 m"
      using append_take_drop_id [of 2 "pre @ take 2 m"] by (simp only: t2 r_def)
    then have r': "pre @ take 2 m = b # c # r"
      by (simp only: append_Cons append_Nil)
    from none have none': "match_w3 (b # c # r) = None" by (simp only: r')
    have "(a # pre) @ take 2 m = a # b # c # r" by (simp only: append_Cons r')
    moreover have "match_w3 (a # b # c # r) = None" using False none' by simp
    ultimately have "match_w3 ((a # pre) @ take 2 m) = None" by (simp only:)
    moreover have "a # b # c # rest = (a # pre) @ m @ post" using eq by simp
    ultimately show ?thesis using len w by blast
  qed
qed simp_all


text \<open>
  Claim C7. In any reachable state, \<open>convertToImage\<close> returns a promise that was
  pending. For a format string with no run of three word characters the promise is
  rejected by the end of the call itself and nothing else changes: the field
  \<open>requestChain\<close>, every reaction list, the job queue and the history of accepted
  requests are as before. For a format string with such a run \<open>m\<close> the promise stays
  pending and the request is appended to the chain: the callback for path \<open>/m\<close> is
  subscribed to the previous chain promise (registered on it while it is pending, queued
  as a job once it is fulfilled) and \<open>requestChain\<close> becomes the promise of that
  subscription.
\<close>

theorem convertToImage_rejects_before_queueing:
  assumes "reachable cfg s"
  shows "let c = calls s; n = length (accepted s); s' = snd (convertToImage puml format s) in
         fst (convertToImage puml format s) = Caller c
         \<and> status s (Caller c) = Pending
         \<and> (match_w3 format = None \<longrightarrow>
               status s' (Caller c)
                 = Rejected (Error (''Cannot identify image format from '' @ format))
               \<and> requestChain s' = requestChain s
               \<and> (\<forall>q. reactions s' q = reactions s q)
               \<and> (\<forall>q. q \<noteq> Caller c \<longrightarrow> status s' q = status s q)
               \<and> jobs s' = jobs s \<and> accepted s' = accepted s
               \<and> inflight s' = inflight s \<and> issued s' = issued s)
         \<and> (\<forall>m. match_w3 format = Some m \<longrightarrow>
               status s' (Caller c) = Pending
               \<and> requestChain s = Chain n \<and> requestChain s' = Chain (Suc n)
               \<and> accepted s' = accepted s @ [(c, ''/'' @ m, puml)]
               \<and> (if status s (Chain n) = Pending
                   then reactions s' (Chain n)
                          = reactions s (Chain n)
                            @ [(ChainLink (''/'' @ m) puml n c, NoHandler, Chain (Suc n))]
                        \<and> jobs s' = jobs s
                   else jobs s'
                          = jobs s @ [ReactionJob (ChainLink (''/'' @ m) puml n c) False Undefined
                                        (Chain (Suc n))]))"
proof -
  from reachable_ok [OF assms] obtain a ph where ok: "state_ok s a ph" by blast
  note d = state_okD [OF ok]
  from d(4) have fresh: "status s (Caller (calls s)) = Pending"
    "reactions s (Caller (calls s)) = []"
    by (simp_all add: peripheral_ok_def)
  from d(1) have rc: "requestChain s = Chain (length (accepted s))"
    and st: "status s (Chain (length (accepted s)))
             = (if length (accepted s) \<le> a then Fulfilled Undefined else Pending)"
    by (simp_all add: chain_ok_def Let_def)
  have fstc: "fst (convertToImage puml format s) = Caller (calls s)"
    by (simp add: convertToImage_def Let_def split: option.splits)
  have rej: "match_w3 format = None \<Longrightarrow>
      snd (convertToImage puml format s)
      = settle (Caller (calls s))
          (Rejected (Error (''Cannot identify image format from '' @ format)))
          (s\<lparr>calls := Suc (calls s)\<rparr>)"
    by (simp add: convertToImage_def Let_def)
  have acc: "\<And>m. match_w3 format = Some m \<Longrightarrow>
      snd (convertToImage puml format s)
      = (thenP (Chain (length (accepted s)))
           (ChainLink (''/'' @ m) puml (length (accepted s)) (calls s)) NoHandler
           (Chain (Suc (length (accepted s)))) (s\<lparr>calls := Suc (calls s)\<rparr>))
        \<lparr>requestChain := Chain (Suc (length (accepted s))),
         accepted := accepted s @ [(calls s, ''/'' @ m, puml)]\<rparr>"
    by (simp add: convertToImage_def Let_def rc)
  show ?thesis
    unfolding Let_def
  proof (intro conjI impI allI)
    show "fst (convertToImage puml format s) = Caller (calls s)" by (rule fstc)
    show "status s (Caller (calls s)) = Pending" by (rule fresh)
  next
    assume n: "match_w3 format = None"
    show "status (snd (convertToImage puml format s)) (Caller (calls s))
          = Rejected (Error (''Cannot identify image format from '' @ format))"
      using fresh by (simp add: rej [OF n])
    show "requestChain (snd (convertToImage puml format s)) = requestChain s"
      by (simp add: rej [OF n])
    show "jobs (snd (convertToImage puml format s)) = jobs s"
      using fresh by (simp add: rej [OF n])
    show "accepted (snd (convertToImage puml format s)) = accepted s" by (simp add: rej [OF n])
    show "inflight (snd (convertToImage puml format s)) = inflight s" by (simp add: rej [OF n])
    show "issued (snd (convertToImage puml format s)) = issued s" by (simp add: rej [OF n])
    fix q
    show "reactions (snd (convertToImage puml format s)) q = reactions s q"
      using fresh by (simp add: rej [OF n])
    assume "q \<noteq> Caller (calls s)"
    then show "status (snd (convertToImage puml format s)) q = status s q"
      by (simp add: rej [OF n])
  next
    fix m assume m: "match_w3 format = Some m"
    show "status (snd (convertToImage puml format s)) (Caller (calls s)) = Pending"
      using fresh by (simp add: acc [OF m])
    show "requestChain s = Chain (length (accepted s))" by (rule rc)
    show "requestChain (snd (convertToImage puml format s)) = Chain (Suc (length (accepted s)))"
      by (simp add: acc [OF m])
    show "accepted (snd (convertToImage puml format s)) = accepted s @ [(calls s, ''/'' @ m, puml)]"
      by (simp add: acc [OF m])
    show "if status s (Chain (length (accepted s))) = Pending
          then reactions (snd (convertToImage puml format s)) (Chain (length (accepted s)))
                 = reactions s (Chain (length (accepted s)))
                   @ [(ChainLink (''/'' @ m) puml (length (accepted s)) (calls s), NoHandler,
                       Chain (Suc (length (accepted s))))]
               \<and> jobs (snd (convertToImage puml format s)) = jobs s
          else jobs (snd (convertToImage puml format s))
                 = jobs s @ [ReactionJob (ChainLink (''/'' @ m) puml (length (accepted s)) (calls s))
                               False Undefined (Chain (Suc (length (accepted s))))]"
      using st by (simp add: acc [OF m])
  qed
qed

text \<open>
  Witness for claim C7: on a fresh generator, the format \<open>.x\<close> is rejected at once with
  the chain left at its initial promise, and the format \<open>.svg\<close> is queued.
\<close>

theorem convertToImage_rejects_before_queueing_witness:
  "status (snd (convertToImage ''P'' ''.x'' (init Map.empty))) (Caller 0)
     = Rejected (Error ''Cannot identify image format from .x'')
   \<and> requestChain (snd (convertToImage ''P'' ''.x'' (init Map.empty))) = Chain 0
   \<and> jobs (snd (convertToImage ''P'' ''.x'' (init Map.empty))) = []
   \<and> accepted (snd (convertToImage ''P'' ''.x'' (init Map.empty))) = []
   \<and> status (snd (convertToImage ''P'' ''.svg'' (init Map.empty))) (Caller 0) = Pending
   \<and> requestChain (snd (convertToImage ''P'' ''.svg'' (init Map.empty))) = Chain 1
   \<and> accepted (snd (convertToImage ''P'' ''.svg'' (init Map.empty))) = [(0, ''/svg'', ''P'')]
   \<and> jobs (snd (convertToImage ''P'' ''.svg'' (init Map.empty)))
       = [ReactionJob (ChainLink ''/svg'' ''P'' 0 0) False Undefined (Chain 1)]"
proof -
  have n: "match_w3 ''.x'' = None" by (simp add: is_word_def word_chars_def)
  have m: "match_w3 ''.svg'' = Some ''svg''" by (simp add: is_word_def word_chars_def)
  have i: "calls (init Map.empty) = 0" "accepted (init Map.empty) = []"
    "requestChain (init Map.empty) = Chain 0" "jobs (init Map.empty) = []"
    "status (init Map.empty) (Chain 0) = Fulfilled Undefined"
    by (simp_all add: init_def)
  from convertToImage_rejects_before_queueing
         [where s = "init Map.empty" and puml = "''P''" and format = "''.x''",
          OF reachable_init] n
       convertToImage_rejects_before_queueing
         [where s = "init Map.empty" and puml = "''P''" and format = "''.svg''",
          OF reachable_init] m
  show ?thesis by (simp add: Let_def i)
qed

lemma word_run_at_0:
  "word_run_at (a # b # c # rest) 0 = (is_word a \<and> is_word b \<and> is_word c)"
  by (simp add: word_run_at_def)

lemma word_run_at_Suc: "word_run_at (x # s) (Suc k) = word_run_at s k"
  by (auto simp: word_run_at_def)

lemma word_run_at_short: "length s < 3 \<Longrightarrow> \<not> word_run_at s k"
  by (simp add: word_run_at_def)

lemma match_w3_None_no_run: "match_w3 s = None \<Longrightarrow> \<not> word_run_at s k"
proof (induction s arbitrary: k rule: match_w3.induct)
  case (1 a b c rest)
  from 1(2) have nw: "\<not> (is_word a \<and> is_word b \<and> is_word c)"
    by (auto split: if_splits)
  with 1(2) have n: "match_w3 (b # c # rest) = None" by simp
  show ?case
  proof (cases k)
    case 0
    with nw show ?thesis by (simp add: word_run_at_0)
  next
    case (Suc k')
    from 1(1) [OF nw n, of k'] show ?thesis by (simp add: Suc word_run_at_Suc)
  qed
qed (simp_all add: word_run_at_short)

lemma match_w3_Some_first_run:
  "match_w3 s = Some m \<Longrightarrow>
   \<exists>k. word_run_at s k \<and> (\<forall>j<k. \<not> word_run_at s j) \<and> m = take 3 (drop k s)"
proof (induction s rule: match_w3.induct)
  case (1 a b c rest)
  show ?case
  proof (cases "is_word a \<and> is_word b \<and> is_word c")
    case True
    with 1(2) have "m = [a, b, c]" by simp
    with True have "word_run_at (a # b # c # rest) 0 \<and> (\<forall>j<0. \<not> word_run_at (a # b # c # rest) j)
        \<and> m = take 3 (drop 0 (a # b # c # rest))"
      by (simp add: word_run_at_0 numeral_3_eq_3)
    then show ?thesis by blast
  next
    case False
    with 1(2) have "match_w3 (b # c # rest) = Some m" by simp
    from 1(1) [OF False this] obtain k where k: "word_run_at (b # c # rest) k"
      and first: "\<forall>j<k. \<not> word_run_at (b # c # rest) j"
      and m: "m = take 3 (drop k (b # c # rest))" by blast
    have "\<not> word_run_at (a # b # c # rest) j" if "j < Suc k" for j
    proof (cases j)
      case 0
      with False show ?thesis by (simp add: word_run_at_0)
    next
      case (Suc j')
      with that first show ?thesis by (simp add: word_run_at_Suc)
    qed
    moreover have "word_run_at (a # b # c # rest) (Suc k)" using k by (simp add: word_run_at_Suc)
    moreover have "m = take 3 (drop (Suc k) (a # b # c # rest))" using m by simp
    ultimately show ?thesis by blast
  qed
qed simp_all

lemma no_run_match_w3_None: "(\<forall>k. \<not> word_run_at s k) \<Longrightarrow> match_w3 s = None"
proof (cases "match_w3 s")
  case (Some m)
  assume "\<forall>k. \<not> word_run_at s k"
  with match_w3_Some_first_run [OF Some] show ?thesis by blast
qed simp

text \<open>
  Claim C10. For every format string accepted by \<open>convertToImage\<close>, with \<open>m\<close> the
  match of \<open>/\w{3}/\<close>: there is a position \<open>k\<close> of the format string at which three
  consecutive word characters start, no three consecutive word characters start at any
  earlier position, and \<open>m\<close> is exactly those three characters, so that all that
  follows them is dropped. A format string is accepted exactly when it has three
  consecutive word characters somewhere. The request recorded for the chain has the path
  \<open>/m\<close>, the chain callback hands exactly that path to \<open>request\<close>, and on a fresh
  generator the call followed by the queued job puts the request \<open>/m\<close> on the wire.
\<close>

theorem request_path_first_three_word_chars:
  assumes "match_w3 format = Some m"
  shows "(\<exists>k. word_run_at format k \<and> (\<forall>j<k. \<not> word_run_at format j)
              \<and> m = take 3 (drop k format))
         \<and> (\<forall>other. (match_w3 other = None) = (\<forall>k. \<not> word_run_at other k))
         \<and> accepted (snd (convertToImage puml format s)) = accepted s @ [(calls s, ''/'' @ m, puml)]
         \<and> issued (snd (runHandler (ChainLink (''/'' @ m) puml i c) v t))
             = issued t @ [(i, ''/'' @ m, puml)]
         \<and> (\<exists>s'. run cfg [ConvertToImage puml format, RunJob] (init fs) = Some s'
                 \<and> issued s' = [(0, ''/'' @ m, puml)] \<and> inflight s' = [(0, ''/'' @ m, puml)])"
proof -
  have a: "accepted (snd (convertToImage puml format s)) = accepted s @ [(calls s, ''/'' @ m, puml)]"
    using assms by (simp add: convertToImage_def Let_def)
  have b: "issued (snd (runHandler (ChainLink (''/'' @ m) puml i c) v t))
             = issued t @ [(i, ''/'' @ m, puml)]"
    by (simp add: request_def)
  have c: "\<exists>s'. run cfg [ConvertToImage puml format, RunJob] (init fs) = Some s'
                 \<and> issued s' = [(0, ''/'' @ m, puml)] \<and> inflight s' = [(0, ''/'' @ m, puml)]"
    using assms
    by (simp add: convertToImage_def Let_def init_def request_def resolveP_thenable)
  have d: "\<forall>other. (match_w3 other = None) = (\<forall>k. \<not> word_run_at other k)"
    using match_w3_None_no_run no_run_match_w3_None by blast
  from match_w3_Some_first_run [OF assms] a b c d show ?thesis by blast
qed

text \<open>
  Witness for claim C10: the longer format names \<open>.jpeg\<close> and \<open>webp\<close> are cut to
  \<open>/jpe\<close> and \<open>/web\<close> in the outbound request, \<open>abc.png\<close> is sent as \<open>/abc\<close> since
  its first three word characters come before the dot, and \<open>a.b\<close>, which has no three
  word characters in a row, has no match.
\<close>

theorem request_path_first_three_word_chars_witness:
  "match_w3 ''.jpeg'' = Some ''jpe'' \<and> match_w3 ''webp'' = Some ''web''
   \<and> match_w3 ''abc.png'' = Some ''abc'' \<and> match_w3 ''a.b'' = None
   \<and> word_run_at ''.jpeg'' 1 \<and> \<not> word_run_at ''.jpeg'' 0
   \<and> accepted (snd (convertToImage ''P'' ''.jpeg'' (init Map.empty))) = [(0, ''/jpe'', ''P'')]
   \<and> accepted (snd (convertToImage ''P'' ''webp'' (init Map.empty))) = [(0, ''/web'', ''P'')]
   \<and> accepted (snd (convertToImage ''P'' ''abc.png'' (init Map.empty))) = [(0, ''/abc'', ''P'')]
   \<and> issued (snd (runHandler (ChainLink ''/jpe'' ''P'' 0 0) Undefined (init Map.empty)))
       = [(0, ''/jpe'', ''P'')]
   \<and> issued (snd (runHandler (ChainLink ''/web'' ''P'' 0 0) Undefined (init Map.empty)))
       = [(0, ''/web'', ''P'')]
   \<and> issued (snd (runHandler (ChainLink ''/abc'' ''P'' 0 0) Undefined (init Map.empty)))
       = [(0, ''/abc'', ''P'')]"
proof -
  have j: "match_w3 ''.jpeg'' = Some ''jpe''" by (simp add: is_word_def word_chars_def)
  have w: "match_w3 ''webp'' = Some ''web''" by (simp add: is_word_def word_chars_def)
  have p: "match_w3 ''abc.png'' = Some ''abc''" by (simp add: is_word_def word_chars_def)
  have n: "match_w3 ''a.b'' = None" by (simp add: is_word_def word_chars_def)
  have r: "word_run_at ''.jpeg'' 1 \<and> \<not> word_run_at ''.jpeg'' 0"
    by (simp add: word_run_at_def is_word_def word_chars_def)
  have i: "calls (init Map.empty) = 0" "accepted (init Map.empty) = []"
    "issued (init Map.empty) = []"
    by (simp_all add: init_def)
  from request_path_first_three_word_chars
         [OF j, where puml = "''P''" and s = "init Map.empty" and i = 0 and c = 0
            and v = Undefined and t = "init Map.empty"]
       request_path_first_three_word_chars
         [OF w, where puml = "''P''" and s = "init Map.empty" and i = 0 and c = 0
            and v = Undefined and t = "init Map.empty"]
       request_path_first_three_word_chars
         [OF p, where puml = "''P''" and s = "init Map.empty" and i = 0 and c = 0
            and v = Undefined and t = "init Map.empty"]
       j w p n r
  show ?thesis by (simp add: i)
qed

lemma settle_keeps: "status s p \<noteq> Pending \<Longrightarrow> status (settle q st s) p = status s p"
  by auto

lemma resolveP_keeps: "status s p \<noteq> Pending \<Longrightarrow> status (resolveP q v s) p = status s p"
  by (cases v) (auto simp: resolveP_def)

lemma accepted_resolveP [simp]: "accepted (resolveP q v s) = accepted s"
  by (cases v) (auto simp: resolveP_def)

lemma runHandler_keeps:
  "status s p \<noteq> Pending \<Longrightarrow> status (snd (runHandler h v s)) p = status s p"
  by (cases h) (auto simp: request_def resolveP_keeps split: val.splits)

lemma accepted_runHandler [simp]: "accepted (snd (runHandler h v s)) = accepted s"
  by (cases h) (simp_all add: request_def split: val.splits)

lemma runJob_keeps:
  assumes "status s p \<noteq> Pending"
  shows "status (runJob j s) p = status s p"
proof (cases j)
  case (ReactionJob h rejected v derived)
  obtain r t where rt: "runHandler h v s = (r, t)" by (cases "runHandler h v s")
  with runHandler_keeps [OF assms, of h v] have t: "status t p = status s p" by simp
  with assms have "status t p \<noteq> Pending" by simp
  then show ?thesis
    using assms ReactionJob rt t
    by (cases r) (simp_all add: settle_keeps resolveP_keeps del: status_settle)
next
  case (ThenableJob q t)
  then show ?thesis by simp
qed

lemma accepted_runJob [simp]: "accepted (runJob j s) = accepted s"
proof (cases j)
  case (ReactionJob h rejected v derived)
  obtain r t where rt: "runHandler h v s = (r, t)" by (cases "runHandler h v s")
  with accepted_runHandler [of h v s] have "accepted t = accepted s" by simp
  then show ?thesis using ReactionJob rt by (cases r) simp_all
next
  case (ThenableJob q t)
  then show ?thesis by simp
qed

lemma convertToImage_keeps:
  "status s p \<noteq> Pending \<Longrightarrow> status (snd (convertToImage puml format s)) p = status s p"
  by (auto simp: convertToImage_def Let_def split: option.splits)

lemma accepted_convertToImage_eq:
  "accepted (snd (convertToImage puml format s))
   = accepted s @ (case match_w3 format of None \<Rightarrow> []
                   | Some m \<Rightarrow> [(calls s, ''/'' @ m, puml)])"
  by (auto simp: convertToImage_def Let_def split: option.splits)

lemma accepted_convertToImage:
  "\<exists>xs. accepted (snd (convertToImage puml format s)) = accepted s @ xs"
  by (simp add: accepted_convertToImage_eq)

lemma convert_keeps:
  "status s (Req k) \<noteq> Pending \<Longrightarrow> status (snd (convert cfg pathOrType puml s)) (Req k) = status s (Req k)"
  by (simp add: convert_def Let_def convertToImage_keeps)

lemma accepted_convert:
  "\<exists>xs. accepted (snd (convert cfg pathOrType puml s)) = accepted s @ xs"
  by (simp add: convert_def Let_def accepted_convertToImage_eq)

lemma fire_keeps:
  assumes "fire cfg ev s = Some s'" "status s (Req k) \<noteq> Pending"
  shows "status s' (Req k) = status s (Req k)"
proof (cases ev)
  case (ConvertToImage puml format)
  with assms show ?thesis by (auto simp: convertToImage_keeps)
next
  case (Convert pathOrType puml)
  with assms show ?thesis by (auto simp: convert_keeps)
next
  case RunJob
  with assms obtain j js where "jobs s = j # js" "s' = runJob j (s\<lparr>jobs := js\<rparr>)"
    by (auto split: list.splits)
  with assms(2) runJob_keeps [of "s\<lparr>jobs := js\<rparr>" "Req k" j] show ?thesis by simp
next
  case (Respond i r)
  with assms show ?thesis
    by (cases r) (auto simp: Let_def resolveP_keeps split: if_splits)
qed

lemma fire_accepted:
  assumes "fire cfg ev s = Some s'"
  shows "\<exists>xs. accepted s' = accepted s @ xs"
proof (cases ev)
  case (ConvertToImage puml format)
  with assms accepted_convertToImage [of puml format s] show ?thesis by auto
next
  case (Convert pathOrType puml)
  with assms accepted_convert [of cfg pathOrType puml s] show ?thesis by auto
next
  case RunJob
  with assms show ?thesis by (auto split: list.splits)
next
  case (Respond i r)
  with assms show ?thesis by (cases r) (auto simp: Let_def split: if_splits)
qed

lemma run_keeps:
  "run cfg es s = Some s' \<Longrightarrow> status s (Req k) \<noteq> Pending \<Longrightarrow>
   status s' (Req k) = status s (Req k)"
proof (induction es arbitrary: s)
  case Nil then show ?case by simp
next
  case (Cons e es)
  from Cons.prems(1) obtain t where t: "fire cfg e s = Some t" and r: "run cfg es t = Some s'"
    by (auto split: option.splits)
  from fire_keeps [OF t Cons.prems(2)] have k: "status t (Req k) = status s (Req k)" .
  with Cons.prems(2) have "status t (Req k) \<noteq> Pending" by simp
  from Cons.IH [OF r this] k show ?case by simp
qed

lemma run_accepted: "run cfg es s = Some s' \<Longrightarrow> \<exists>xs. accepted s' = accepted s @ xs"
proof (induction es arbitrary: s)
  case Nil then show ?case by simp
next
  case (Cons e es)
  from Cons.prems(1) obtain t where t: "fire cfg e s = Some t" and r: "run cfg es t = Some s'"
    by (auto split: option.splits)
  from fire_accepted [OF t] obtain xs where "accepted t = accepted s @ xs" by blast
  moreover from Cons.IH [OF r] obtain ys where "accepted s' = accepted t @ ys" by blast
  ultimately show ?case by simp
qed

lemma failed_caller_pending:
  assumes ok: "state_ok s a ph" and k: "k < length (accepted s)"
    and rj: "status s (Req k) = Rejected x"
  shows "status s (Caller (fst (accepted s ! k))) = Pending"
proof -
  note d = state_okD [OF ok]
  from d(3) k have cs: "status s (Caller (link_caller (accepted s) k))
      = (if k < a then caller_of (status s (Req k))
         else if k = a then caller_status ph else Pending)"
    by (simp add: callers_ok_def Let_def)
  from d(2) have ra: "status s (Req a) = req_status ph" by (simp add: link_ok_def Let_def)
  have "k = a \<Longrightarrow> caller_status ph = Pending"
  proof -
    assume "k = a"
    with ra rj have rs: "req_status ph = Rejected x" by simp
    show ?thesis
    proof (cases ph)
      case (SettledResp r) with rs show ?thesis by (cases r) simp_all
    next
      case (CaughtDone r) with rs show ?thesis by (cases r) simp_all
    qed simp_all
  qed
  with cs rj show ?thesis by (auto simp: link_caller_def)
qed

lemma logs_resolveP [simp]: "logs (resolveP q v s) = logs s"
  by (cases v) (auto simp: resolveP_def)

lemma link_request_snd: "link_request acc j = (j, snd (acc ! j))"
  by (simp add: link_request_def split: prod.splits)

text \<open>
  Claim C2. Take any reachable state in which a request of the chain, the \<open>i\<close>-th
  accepted one, is on the wire and no job is queued, and let the request fail with error
  \<open>e\<close>. Then the error event and the three jobs it sets off run through: the promise
  of the request is rejected, the \<open>catch\<close> of the queue passes the error to \<open>debug\<close>
  (it is the one line added to the log), and the chain promise of the link is fulfilled,
  so that the next queued request, if there is one, is started by the next job. And in
  every state reachable from there the promise that \<open>convertToImage\<close> returned to the
  caller of that request is still pending: it is never resolved and never rejected.
\<close>

theorem failed_request_is_swallowed:
  assumes r: "reachable cfg s" and q: "jobs s = []" and i: "i \<in> fst ` set (inflight s)"
  shows "i < length (accepted s)
         \<and> (\<exists>s1. run cfg [Respond i (Failed e), RunJob, RunJob, RunJob] s = Some s1
              \<and> status s1 (Req i) = Rejected (Error e)
              \<and> logs s1 = logs s @ [Error e]
              \<and> status s1 (Chain (Suc i)) = Fulfilled Undefined
              \<and> (Suc i < length (accepted s) \<longrightarrow>
                   (\<exists>s2. run cfg [RunJob] s1 = Some s2
                         \<and> inflight s2 = [(Suc i, snd (accepted s ! Suc i))]))
              \<and> (\<forall>es s2. run cfg es s1 = Some s2 \<longrightarrow>
                     status s2 (Caller (fst (accepted s ! i))) = Pending))"
proof -
  from reachable_ok [OF r] obtain a ph where ok: "state_ok s a ph" by blast
  from wire_subscribed [OF ok q i] have ph: "ph = Subscribed" and ia: "i = a"
    and lt: "a < length (accepted s)" by simp_all
  note d = state_okD [OF ok [unfolded ph]]
  from d(2) have rq: "status s (Req a) = Pending"
    "reactions s (Req a) = [(ResolveCaller (link_caller (accepted s) a), NoHandler, Settled a)]"
    by (simp_all add: link_ok_def Let_def)
  \<comment> \<open>the error event\<close>
  define t1 where "t1 = settle (Req a) (Rejected (Error e))
                          (s\<lparr>inflight := filter (\<lambda>q. fst q \<noteq> a) (inflight s)\<rparr>)"
  have f1: "fire cfg (Respond a (Failed e)) s = Some t1"
    using q i by (simp add: t1_def ia)
  have ok1: "state_ok t1 a (GotResp (Failed e))" by (rule respond_ok [OF ok f1])
  have j1: "jobs t1 = [ReactionJob NoHandler True (Error e) (Settled a)]"
    using q rq by (simp add: t1_def)
  have a1: "accepted t1 = accepted s" "logs t1 = logs s"
    "status t1 (Req a) = Rejected (Error e)"
    using rq by (simp_all add: t1_def)
  note d1 = state_okD [OF ok1]
  \<comment> \<open>the rejection passes through \<open>then(resolve)\<close>\<close>
  define t2 where "t2 = runJob (ReactionJob NoHandler True (Error e) (Settled a)) (t1\<lparr>jobs := []\<rparr>)"
  have f2: "fire cfg RunJob t1 = Some t2" by (simp add: j1 t2_def)
  have ok2: "state_ok t2 a (SettledResp (Failed e))"
    unfolding t2_def by (rule run_gotresp_failed [OF ok1 j1]) simp
  from d1(2) have st1: "status t1 (Settled a) = Pending"
    "reactions t1 (Settled a) = [(NoHandler, DebugErr, Caught a)]"
    by (simp_all add: link_ok_def Let_def)
  have j2: "jobs t2 = [ReactionJob DebugErr True (Error e) (Caught a)]"
    using st1 by (simp add: t2_def)
  have a2: "accepted t2 = accepted s" "logs t2 = logs s"
    using a1 by (simp_all add: t2_def)
  note d2 = state_okD [OF ok2]
  \<comment> \<open>\<open>catch\<close> logs it\<close>
  define t3 where "t3 = runJob (ReactionJob DebugErr True (Error e) (Caught a)) (t2\<lparr>jobs := []\<rparr>)"
  have f3: "fire cfg RunJob t2 = Some t3" by (simp add: j2 t3_def)
  have ok3: "state_ok t3 a (CaughtDone (Failed e))"
    unfolding t3_def by (rule run_settled [OF ok2 j2]) simp
  from d2(2) have st2: "status t2 (Caught a) = Pending"
    "reactions t2 (Caught a)
       = [(ResolveFn (Chain (Suc a)), RejectFn (Chain (Suc a)), Adopt (Chain (Suc a)))]"
    by (simp_all add: link_ok_def Let_def)
  have j3: "jobs t3 = [ReactionJob (ResolveFn (Chain (Suc a))) False Undefined
                         (Adopt (Chain (Suc a)))]"
    using st2 by (simp add: t3_def resolveP_plain)
  have a3: "accepted t3 = accepted s" "logs t3 = logs s @ [Error e]"
    using a2 by (simp_all add: t3_def)
  note d3 = state_okD [OF ok3]
  \<comment> \<open>the chain promise of the link is fulfilled\<close>
  define t4 where "t4 = runJob (ReactionJob (ResolveFn (Chain (Suc a))) False Undefined
                                  (Adopt (Chain (Suc a)))) (t3\<lparr>jobs := []\<rparr>)"
  have f4: "fire cfg RunJob t3 = Some t4" by (simp add: j3 t4_def)
  have ok4: "state_ok t4 (Suc a) (after_done t3 a)"
    unfolding t4_def by (rule run_caughtdone [OF ok3 j3]) simp
  have a4: "accepted t4 = accepted s" "logs t4 = logs s @ [Error e]"
    using a3 by (simp_all add: t4_def)
  from state_okD(1) [OF ok4] have c4: "status t4 (Chain (Suc a)) = Fulfilled Undefined"
    by (simp add: chain_ok_def Let_def)
  have run4: "run cfg [Respond a (Failed e), RunJob, RunJob, RunJob] s = Some t4"
    by (simp only: run.simps f1 f2 f3 f4 option.case)
  have run3: "run cfg [RunJob, RunJob, RunJob] t1 = Some t4"
    by (simp only: run.simps f2 f3 f4 option.case)
  from run_keeps [OF run3, of a] a1 have rq4: "status t4 (Req a) = Rejected (Error e)" by simp
  have r4: "reachable cfg t4" by (rule run_reachable [OF r run4])
  \<comment> \<open>the next link, if any, starts\<close>
  have nxt: "\<exists>s2. run cfg [RunJob] t4 = Some s2
                  \<and> inflight s2 = [(Suc a, snd (accepted s ! Suc a))]"
    if more: "Suc a < length (accepted s)"
  proof -
    from d3(1) more a3 have c3: "status t3 (Chain (Suc a)) = Pending"
      "reactions t3 (Chain (Suc a))
         = [(link_handler (accepted s) (Suc a), NoHandler, Chain (Suc (Suc a)))]"
      by (simp_all add: chain_ok_def Let_def)
    from d3(4) have ad: "reactions t3 (Adopt (Chain (Suc a))) = []"
      by (simp add: peripheral_ok_def)
    have j4: "jobs t4 = [ReactionJob (link_handler (accepted t4) (Suc a)) False Undefined
                           (Chain (Suc (Suc a)))]"
      using c3 ad by (simp add: t4_def resolveP_plain a3)
    from more a3 have ph4: "after_done t3 a = Queued" by (simp add: after_done_def)
    define t5 where "t5 = runJob (ReactionJob (link_handler (accepted t4) (Suc a)) False Undefined
                           (Chain (Suc (Suc a)))) (t4\<lparr>jobs := []\<rparr>)"
    have f5: "fire cfg RunJob t4 = Some t5" by (simp add: j4 t5_def)
    have ok5: "state_ok t5 (Suc a) OnWire"
      unfolding t5_def by (rule run_queued [OF ok4 [unfolded ph4] j4]) simp
    have "accepted t5 = accepted (t4\<lparr>jobs := []\<rparr>)"
      unfolding t5_def by (rule accepted_runJob)
    then have a5: "accepted t5 = accepted s" using a4 by simp
    from state_okD(1) [OF ok5] have "inflight t5 = [link_request (accepted t5) (Suc a)]"
      by (simp add: chain_ok_def Let_def)
    then have "inflight t5 = [(Suc a, snd (accepted s ! Suc a))]"
      by (simp add: a5 link_request_snd)
    moreover have "run cfg [RunJob] t4 = Some t5"
      by (simp only: run.simps f5 option.case)
    ultimately show ?thesis by blast
  qed
  \<comment> \<open>the caller's promise is never settled\<close>
  have never: "status s2 (Caller (fst (accepted s ! a))) = Pending"
    if run: "run cfg es t4 = Some s2" for es s2
  proof -
    from run_reachable [OF r4 run] have "reachable cfg s2" .
    from reachable_ok [OF this] obtain a2 ph2 where ok': "state_ok s2 a2 ph2" by blast
    from run_accepted [OF run] a4 obtain xs where acc: "accepted s2 = accepted s @ xs" by auto
    from run_keeps [OF run, of a] rq4 have rj: "status s2 (Req a) = Rejected (Error e)" by simp
    from acc lt have k: "a < length (accepted s2)" by simp
    from failed_caller_pending [OF ok' k rj] acc lt show ?thesis by (simp add: nth_append)
  qed
  from lt run4 rq4 a4 c4 nxt never show ?thesis unfolding ia by blast
qed

text \<open>
  Witness for claim C2: two conversions are queued and the first request is on the wire;
  it fails with \<open>boom\<close>. The log holds that error, the first chain link is fulfilled,
  and the promise of the first caller is pending.
\<close>

theorem failed_request_is_swallowed_witness:
  "jobs (the (run \<lparr>config_directory = ''out'', output_formats = [''svg'', ''png''],
                     process_cwd = ''/w''\<rparr>
            [ConvertToImage ''A'' ''svg'', ConvertToImage ''B'' ''png'', RunJob, RunJob]
            (init Map.empty))) = []
   \<and> inflight (the (run \<lparr>config_directory = ''out'', output_formats = [''svg'', ''png''],
                     process_cwd = ''/w''\<rparr>
            [ConvertToImage ''A'' ''svg'', ConvertToImage ''B'' ''png'', RunJob, RunJob]
            (init Map.empty))) = [(0, ''/svg'', ''A'')]
   \<and> logs (the (run \<lparr>config_directory = ''out'', output_formats = [''svg'', ''png''],
                     process_cwd = ''/w''\<rparr>
            [Respond 0 (Failed ''boom''), RunJob, RunJob, RunJob]
            (the (run \<lparr>config_directory = ''out'', output_formats = [''svg'', ''png''],
                     process_cwd = ''/w''\<rparr>
               [ConvertToImage ''A'' ''svg'', ConvertToImage ''B'' ''png'', RunJob, RunJob]
               (init Map.empty))))) = [Error ''boom'']
   \<and> status (the (run \<lparr>config_directory = ''out'', output_formats = [''svg'', ''png''],
                     process_cwd = ''/w''\<rparr>
            [Respond 0 (Failed ''boom''), RunJob, RunJob, RunJob]
            (the (run \<lparr>config_directory = ''out'', output_formats = [''svg'', ''png''],
                     process_cwd = ''/w''\<rparr>
               [ConvertToImage ''A'' ''svg'', ConvertToImage ''B'' ''png'', RunJob, RunJob]
               (init Map.empty))))) (Caller 0) = Pending
   \<and> status (the (run \<lparr>config_directory = ''out'', output_formats = [''svg'', ''png''],
                     process_cwd = ''/w''\<rparr>
            [Respond 0 (Failed ''boom''), RunJob, RunJob, RunJob]
            (the (run \<lparr>config_directory = ''out'', output_formats = [''svg'', ''png''],
                     process_cwd = ''/w''\<rparr>
               [ConvertToImage ''A'' ''svg'', ConvertToImage ''B'' ''png'', RunJob, RunJob]
               (init Map.empty))))) (Chain 1) = Fulfilled Undefined"
proof -
  let ?cfg = "\<lparr>config_directory = ''out'', output_formats = [''svg'', ''png''],
               process_cwd = ''/w''\<rparr>"
  let ?pre = "[ConvertToImage ''A'' ''svg'', ConvertToImage ''B'' ''png'', RunJob, RunJob]"
  let ?post = "[Respond 0 (Failed ''boom''), RunJob, RunJob, RunJob]"
  have "run ?cfg ?pre (init Map.empty) \<noteq> None" by code_simp
  then obtain s where s: "run ?cfg ?pre (init Map.empty) = Some s" by blast
  have the_s: "the (run ?cfg ?pre (init Map.empty)) = s" by (simp only: s option.sel)
  have r: "reachable ?cfg s" by (rule run_reachable [OF reachable_init s])
  have q0: "jobs (the (run ?cfg ?pre (init Map.empty))) = []" by code_simp
  have i0: "inflight (the (run ?cfg ?pre (init Map.empty))) = [(0, ''/svg'', ''A'')]"
    by code_simp
  have l0: "logs (the (run ?cfg ?pre (init Map.empty))) = []" by code_simp
  have c0: "fst (accepted (the (run ?cfg ?pre (init Map.empty))) ! 0) = 0" by code_simp
  note q = q0 [unfolded the_s] and i = i0 [unfolded the_s] and l = l0 [unfolded the_s]
    and c = c0 [unfolded the_s]
  have mem: "0 \<in> fst ` set (inflight s)" by (simp add: i)
  from failed_request_is_swallowed [OF r q mem, of "''boom''"]
  obtain s1 where s1: "run ?cfg ?post s = Some s1"
    and lg: "logs s1 = logs s @ [Error ''boom'']"
    and ch: "status s1 (Chain (Suc 0)) = Fulfilled Undefined"
    and nv: "\<forall>es s2. run ?cfg es s1 = Some s2 \<longrightarrow>
               status s2 (Caller (fst (accepted s ! 0))) = Pending"
    by blast
  have the_s1: "the (run ?cfg ?post s) = s1" by (simp only: s1 option.sel)
  have "run ?cfg [] s1 = Some s1" by simp
  with nv have "status s1 (Caller (fst (accepted s ! 0))) = Pending" by blast
  then have cp: "status s1 (Caller 0) = Pending" by (simp only: c)
  from lg l have lg': "logs s1 = [Error ''boom'']" by simp
  from ch have ch': "status s1 (Chain 1) = Fulfilled Undefined" by simp
  show ?thesis
    unfolding the_s the_s1 using q i lg' cp ch' by blast
qed

text \<open>
  Claim C6, as stated, fails in its exception: the delete does not depend on what the
  destination resolves to. With a file at the resolved path, exporting to the
  unrecognized destination \<open>notes.txt\<close>, or to the bare format keyword \<open>svg\<close>, deletes
  that file and writes nothing.
\<close>

theorem export_deletes_without_writing:
  "fsops (snd (convert \<lparr>config_directory = ''out'', output_formats = [''svg'', ''png''],
                         process_cwd = ''/w''\<rparr>
                 ''notes.txt'' ''P'' (init [''/w/out/notes.txt'' \<mapsto> ''old''])))
     = [Unlink ''/w/out/notes.txt'']
   \<and> fsops (snd (convert \<lparr>config_directory = ''out'', output_formats = [''svg'', ''png''],
                         process_cwd = ''/w''\<rparr>
                 ''svg'' ''P'' (init [''/w/out/svg'' \<mapsto> ''old''])))
     = [Unlink ''/w/out/svg'']"
  by code_simp

lemma fsops_settle_thenP [simp]:
  "fsops (settle p st s) = fsops s" "fsops (thenP p f r d s) = fsops s"
  by simp_all

lemma fsops_convertToImage [simp]: "fsops (snd (convertToImage puml format s)) = fsops s"
  by (simp add: convertToImage_def Let_def split: option.splits)

text \<open>
  Claim C6, amended. For every call of the export operation, in a reachable state, with a
  destination at whose resolved path a file exists: the call performs exactly one
  filesystem delete, of that path, first and whatever the destination is. During the call
  it then performs exactly one write, of the diagram text, when the destination is not an
  image format and has the extension \<open>.puml\<close>, and no write otherwise. For an
  unrecognized destination nothing is left pending. For an image format the callback
  \<open>SaveImage\<close> is attached to the conversion promise (unless the format token was
  refused); when it runs, that is when the conversion has succeeded, it performs exactly
  one write of the image if the destination is a path with an image extension, and none
  for a bare format keyword.
\<close>

theorem convert_deletes_then_writes:
  assumes r: "reachable cfg s"
    and ex: "existsSync (path_resolve (process_cwd cfg) [config_directory cfg, pathOrType]) s"
  shows "let p = path_resolve (process_cwd cfg) [config_directory cfg, pathOrType];
             ext = path_extname p;
             save = (replace_dot ext \<in> set (output_formats cfg));
             out = (pathOrType \<in> set (output_formats cfg));
             c = calls s;
             s' = snd (convert cfg pathOrType puml s)
         in fsops s' = fsops s @ Unlink p
                         # (if \<not> save \<and> \<not> out \<and> ext = ''.puml'' then [WriteFile p puml] else [])
            \<and> (save \<or> out \<longrightarrow>
                  reactions s' (Caller c)
                    = (if match_w3 (if ext \<noteq> [] then ext else pathOrType) = None then []
                       else [(SaveImage p save, NoHandler, Saved c)]))
            \<and> (\<not> (save \<or> out) \<longrightarrow> reactions s' = reactions s \<and> jobs s' = jobs s)
            \<and> (\<forall>img t. fsops (snd (runHandler (SaveImage p save) (Buffer img) t))
                         = fsops t @ (if save then [WriteFile p img] else []))
            \<and> (\<forall>v t. \<not> is_buffer v \<longrightarrow>
                         fsops (snd (runHandler (SaveImage p save) v t)) = fsops t)"
proof -
  define p where "p = path_resolve (process_cwd cfg) [config_directory cfg, pathOrType]"
  define ext where "ext = path_extname p"
  define save where "save = (replace_dot ext \<in> set (output_formats cfg))"
  define out where "out = (pathOrType \<in> set (output_formats cfg))"
  define s1 where "s1 = unlinkSync p s"
  from ex have ex': "existsSync p s" by (simp add: p_def)
  from reachable_ok [OF r] obtain a ph where ok: "state_ok s a ph" by blast
  then have ok1: "state_ok s1 a ph" by (simp add: s1_def)
  have c1: "calls s1 = calls s" by (simp add: s1_def)
  have f1: "fsops s1 = fsops s @ [Unlink p]" by (simp add: s1_def unlinkSync_def)
  have hd1: "\<forall>img t. fsops (snd (runHandler (SaveImage p save) (Buffer img) t))
                    = fsops t @ (if save then [WriteFile p img] else [])"
    by (simp add: writeFileSync_def)
  have hd2: "\<forall>v t. \<not> is_buffer v \<longrightarrow>
                    fsops (snd (runHandler (SaveImage p save) v t)) = fsops t"
  proof (intro allI impI)
    fix v t assume "\<not> is_buffer v"
    then show "fsops (snd (runHandler (SaveImage p save) v t)) = fsops t"
      by (cases v) simp_all
  qed
  note hd = hd1 hd2
  have res: "fsops (snd (convert cfg pathOrType puml s))
               = fsops s @ Unlink p
                   # (if \<not> save \<and> \<not> out \<and> ext = ''.puml'' then [WriteFile p puml] else [])
            \<and> (save \<or> out \<longrightarrow>
                  reactions (snd (convert cfg pathOrType puml s)) (Caller (calls s))
                    = (if match_w3 (if ext \<noteq> [] then ext else pathOrType) = None then []
                       else [(SaveImage p save, NoHandler, Saved (calls s))]))
            \<and> (\<not> (save \<or> out) \<longrightarrow>
                  reactions (snd (convert cfg pathOrType puml s)) = reactions s
                  \<and> jobs (snd (convert cfg pathOrType puml s)) = jobs s)
            \<and> (\<forall>img t. fsops (snd (runHandler (SaveImage p save) (Buffer img) t))
                         = fsops t @ (if save then [WriteFile p img] else []))
            \<and> (\<forall>v t. \<not> is_buffer v \<longrightarrow>
                         fsops (snd (runHandler (SaveImage p save) v t)) = fsops t)"
  proof (cases "save \<or> out")
    case True
    define fmt where "fmt = (if ext \<noteq> [] then ext else pathOrType)"
    define s2 where "s2 = snd (convertToImage puml fmt s1)"
    have eq: "snd (convert cfg pathOrType puml s)
        = thenP (Saved (calls s)) NoHandler Rethrow (Rethrown (calls s))
           (thenP (Caller (calls s)) (SaveImage p save) NoHandler (Saved (calls s)) s2)"
      using True ex'
      by (simp add: convert_def Let_def p_def ext_def save_def out_def s1_def s2_def fmt_def)
    note fr = convertToImage_fresh [OF ok1, of puml fmt, folded s2_def, unfolded c1]
    from state_okD(4) [OF ok1] have fresh: "status s1 (Caller (calls s)) = Pending"
      by (simp add: peripheral_ok_def c1 [symmetric])
    have st2: "status s2 (Caller (calls s)) = Pending \<longleftrightarrow> match_w3 fmt \<noteq> None"
      using fresh state_okD(1) [OF ok1]
      by (auto simp: s2_def convertToImage_def Let_def c1 chain_ok_def split: option.splits)
    have a: "fsops (snd (convert cfg pathOrType puml s)) = fsops s @ [Unlink p]"
      by (simp add: eq s2_def f1)
    have b: "reactions (snd (convert cfg pathOrType puml s)) (Caller (calls s))
        = (if match_w3 fmt = None then [] else [(SaveImage p save, NoHandler, Saved (calls s))])"
      using fr st2 by (auto simp: eq)
    from True have c: "\<not> (\<not> save \<and> \<not> out \<and> ext = ''.puml'')" by blast
    show ?thesis
      using True hd a b [unfolded fmt_def] by (simp only: c if_False) simp
  next
    case False
    define s2 where "s2 = (if ext = ''.puml'' then writeFileSync p puml s1 else s1)"
    have eq: "snd (convert cfg pathOrType puml s)
        = s2\<lparr>calls := Suc (calls s2),
              status := (status s2)(Direct (calls s2) := Fulfilled (Text puml))\<rparr>"
      using False ex'
      by (simp add: convert_def Let_def p_def ext_def save_def out_def s1_def s2_def)
    have a: "fsops (snd (convert cfg pathOrType puml s))
          = fsops s @ Unlink p # (if ext = ''.puml'' then [WriteFile p puml] else [])"
      by (simp add: eq s2_def f1 writeFileSync_def)
    have b: "reactions (snd (convert cfg pathOrType puml s)) = reactions s"
      "jobs (snd (convert cfg pathOrType puml s)) = jobs s"
      by (simp_all add: eq s2_def s1_def)
    from False have c: "(\<not> save \<and> \<not> out \<and> ext = ''.puml'') = (ext = ''.puml'')" by blast
    show ?thesis
      using False hd a b by (simp only: c) simp
  qed
  show ?thesis
    unfolding Let_def using res unfolding save_def out_def ext_def p_def .
qed

text \<open>
  Witness for claim C6 (amended): exporting to \<open>a.svg\<close> over an existing file deletes
  it and attaches the saving callback; once the conversion has answered, the file
  operations are the delete followed by one write of the image. Exporting to \<open>x.puml\<close>
  over an existing file deletes it and writes the diagram text.
\<close>

theorem convert_deletes_then_writes_witness:
  "existsSync ''/w/out/a.svg'' (init [''/w/out/a.svg'' \<mapsto> ''old''])
   \<and> fsops (snd (convert \<lparr>config_directory = ''out'', output_formats = [''svg'', ''png''],
                           process_cwd = ''/w''\<rparr>
                   ''a.svg'' ''P'' (init [''/w/out/a.svg'' \<mapsto> ''old''])))
       = [Unlink ''/w/out/a.svg'']
   \<and> reactions (snd (convert \<lparr>config_directory = ''out'', output_formats = [''svg'', ''png''],
                           process_cwd = ''/w''\<rparr>
                   ''a.svg'' ''P'' (init [''/w/out/a.svg'' \<mapsto> ''old'']))) (Caller 0)
       = [(SaveImage ''/w/out/a.svg'' True, NoHandler, Saved 0)]
   \<and> fsops (the (run \<lparr>config_directory = ''out'', output_formats = [''svg'', ''png''],
                        process_cwd = ''/w''\<rparr>
                [Convert ''a.svg'' ''P'', RunJob, RunJob, Respond 0 (Ok ''img''),
                 RunJob, RunJob, RunJob, RunJob, RunJob]
                (init [''/w/out/a.svg'' \<mapsto> ''old''])))
       = [Unlink ''/w/out/a.svg'', WriteFile ''/w/out/a.svg'' ''img'']
   \<and> fsops (snd (convert \<lparr>config_directory = ''out'', output_formats = [''svg'', ''png''],
                           process_cwd = ''/w''\<rparr>
                   ''x.puml'' ''P'' (init [''/w/out/x.puml'' \<mapsto> ''old''])))
       = [Unlink ''/w/out/x.puml'', WriteFile ''/w/out/x.puml'' ''P'']"
proof -
  let ?cfg = "\<lparr>config_directory = ''out'', output_formats = [''svg'', ''png''],
               process_cwd = ''/w''\<rparr>"
  have pa: "path_resolve (process_cwd ?cfg) [config_directory ?cfg, ''a.svg''] = ''/w/out/a.svg''"
    by code_simp
  have px: "path_resolve (process_cwd ?cfg) [config_directory ?cfg, ''x.puml''] = ''/w/out/x.puml''"
    by code_simp
  have ea: "path_extname ''/w/out/a.svg'' = ''.svg''" by code_simp
  have ex: "path_extname ''/w/out/x.puml'' = ''.puml''" by code_simp
  have xa: "existsSync ''/w/out/a.svg'' (init [''/w/out/a.svg'' \<mapsto> ''old''])"
    by (simp add: existsSync_def init_def)
  have xx: "existsSync ''/w/out/x.puml'' (init [''/w/out/x.puml'' \<mapsto> ''old''])"
    by (simp add: existsSync_def init_def)
  have m: "match_w3 ''.svg'' = Some ''svg''" by (simp add: is_word_def word_chars_def)
  have i: "fsops (init [''/w/out/a.svg'' \<mapsto> ''old'']) = []"
    "calls (init [''/w/out/a.svg'' \<mapsto> ''old'']) = 0"
    "fsops (init [''/w/out/x.puml'' \<mapsto> ''old'']) = []"
    by (simp_all add: init_def)
  have full: "fsops (the (run ?cfg
                [Convert ''a.svg'' ''P'', RunJob, RunJob, Respond 0 (Ok ''img''),
                 RunJob, RunJob, RunJob, RunJob, RunJob]
                (init [''/w/out/a.svg'' \<mapsto> ''old''])))
       = [Unlink ''/w/out/a.svg'', WriteFile ''/w/out/a.svg'' ''img'']"
    by code_simp
  from convert_deletes_then_writes
         [where cfg = ?cfg and pathOrType = "''a.svg''" and puml = "''P''"
            and s = "init [''/w/out/a.svg'' \<mapsto> ''old'']",
          OF reachable_init, unfolded pa, OF xa]
  have a: "fsops (snd (convert ?cfg ''a.svg'' ''P'' (init [''/w/out/a.svg'' \<mapsto> ''old''])))
             = [Unlink ''/w/out/a.svg'']
           \<and> reactions (snd (convert ?cfg ''a.svg'' ''P'' (init [''/w/out/a.svg'' \<mapsto> ''old''])))
               (Caller 0) = [(SaveImage ''/w/out/a.svg'' True, NoHandler, Saved 0)]"
    by (simp add: Let_def ea m i is_word_def word_chars_def)
  from convert_deletes_then_writes
         [where cfg = ?cfg and pathOrType = "''x.puml''" and puml = "''P''"
            and s = "init [''/w/out/x.puml'' \<mapsto> ''old'']",
          OF reachable_init, unfolded px, OF xx]
  have x: "fsops (snd (convert ?cfg ''x.puml'' ''P'' (init [''/w/out/x.puml'' \<mapsto> ''old''])))
             = [Unlink ''/w/out/x.puml'', WriteFile ''/w/out/x.puml'' ''P'']"
    by (simp add: Let_def ex i is_word_def word_chars_def)
  from xa a full x show ?thesis by blast
qed

end
